theory Spec2Isabelle
  imports Complex_Main "HOL-Library.Word"
begin

unbundle bit_operations_syntax

section \<open>Arrays and numbers\<close>

text \<open>
  A grayscale image is a numpy array of dtype uint8 and shape (h, w): a list of h rows of
  w pixels each.  Python floats are modelled by rationals and float arithmetic as exact
  arithmetic; Python's unbounded integers are \<open>int\<close>.  Where a float is cut to an integer
  (the products h * 0.2 and h * 0.85 of step 5) the exact product is an integer or at
  least 1/20 away from one, far more than a rounding error, so the cut float product is
  the cut exact product.
\<close>

type_synonym uint8 = "8 word"
type_synonym image = "uint8 list list"
type_synonym point = "int \<times> int"
type_synonym contour = "point list"

datatype error = AttributeError | CvSizeError

definition shape :: "image \<Rightarrow> nat \<times> nat" where
  "shape img = (length img, (case img of [] \<Rightarrow> 0 | row # _ \<Rightarrow> length row))"

definition dims :: "image \<Rightarrow> nat list" where
  "dims img = map length img"

text \<open>
  \<open>array_like img f\<close> is a fresh array with the shape of \<open>img\<close> whose cell in row r and
  column c holds \<open>f r c\<close>: the shape of \<open>np.zeros_like(img)\<close> and of every destination
  array OpenCV allocates "of the same size and type as src".
\<close>

definition array_like :: "image \<Rightarrow> (nat \<Rightarrow> nat \<Rightarrow> uint8) \<Rightarrow> image" where
  "array_like img f = map (\<lambda>r. map (\<lambda>c. f r c) [0..<length (img ! r)]) [0..<length img]"

definition zeros_like :: "image \<Rightarrow> image" where
  "zeros_like img = array_like img (\<lambda>r c. 0)"

definition zeros :: "nat \<times> nat \<Rightarrow> image" where
  "zeros s = replicate (fst s) (replicate (snd s) 0)"

text \<open>Reading a pixel at signed coordinates; \<open>None\<close> outside the array.\<close>

definition px :: "image \<Rightarrow> int \<Rightarrow> int \<Rightarrow> uint8 option" where
  "px img r c =
     (if 0 \<le> r \<and> r < int (length img) \<and> 0 \<le> c \<and> c < int (length (img ! nat r))
      then Some (img ! nat r ! nat c) else None)"

text \<open>\<open>int(x)\<close> on a Python float and numpy's cast of a float to int32: towards zero.\<close>

definition py_int :: "rat \<Rightarrow> int" where
  "py_int x = (if 0 \<le> x then \<lfloor>x\<rfloor> else \<lceil>x\<rceil>)"

text \<open>\<open>np.sum(final_mask > 0)\<close>: the number of nonzero cells.\<close>

definition count_nonzero :: "image \<Rightarrow> nat" where
  "count_nonzero img = sum_list (map (\<lambda>row. length (filter (\<lambda>v. v \<noteq> 0) row)) img)"

text \<open>
  \<open>np.sum(mask)\<close> of a uint8 array: numpy accumulates in a 64-bit unsigned integer, which
  an image of fewer than 2^56 pixels cannot overflow, so the sum is the sum of the cell
  values as natural numbers.
\<close>

definition np_sum :: "image \<Rightarrow> nat" where
  "np_sum img = sum_list (map (\<lambda>row. sum_list (map unat row)) img)"

definition two_valued :: "image \<Rightarrow> bool" where
  "two_valued img = list_all (list_all (\<lambda>v. v = 0 \<or> v = 255)) img"

section \<open>The OpenCV calls of the two programs\<close>

text \<open>
  OpenCV is not part of the repository.  What the programs' results depend on only as
  opaque data is a parameter of the model, a field of the record \<open>cv2\<close>:
  \<^item> \<open>bilateral_px\<close>: the value \<open>cv2.bilateralFilter\<close> computes for a cell;
  \<^item> \<open>local_mean\<close>: the neighbourhood mean \<open>cv2.adaptiveThreshold\<close> compares a cell with;
  \<^item> \<open>findContours\<close>: the contours \<open>cv2.findContours(mask, cv2.RETR_EXTERNAL,
    cv2.CHAIN_APPROX_SIMPLE)\<close> returns, each a list of (x, y) points;
  \<^item> \<open>polyCover\<close>: whether the filled polygon of a point list covers the pixel (x, y),
    for \<open>cv2.drawContours\<close> with thickness -1 and for \<open>cv2.fillPoly\<close>;
  \<^item> \<open>imread\<close>: the decoded grayscale image of a path, \<open>None\<close> when decoding fails.

  The calls whose documented semantics the claims rest on are written out below.
\<close>

record cv2 =
  bilateral_px :: "image \<Rightarrow> nat \<Rightarrow> rat \<Rightarrow> rat \<Rightarrow> nat \<Rightarrow> nat \<Rightarrow> uint8"
  local_mean :: "image \<Rightarrow> nat \<Rightarrow> nat \<Rightarrow> nat \<Rightarrow> int"
  findContours :: "image \<Rightarrow> contour list"
  polyCover :: "contour \<Rightarrow> int \<Rightarrow> int \<Rightarrow> bool"
  imread :: "string \<Rightarrow> image option"

text \<open>
  \<open>cv2.bilateralFilter(src, d, sigmaColor, sigmaSpace)\<close>: a destination of the size of
  \<open>src\<close>; the smoothed values are the library's.
\<close>

definition bilateralFilter :: "('a cv2_scheme) \<Rightarrow> image \<Rightarrow> nat \<Rightarrow> rat \<Rightarrow> rat \<Rightarrow> image" where
  "bilateralFilter lib src d sigmaColor sigmaSpace =
     array_like src (\<lambda>r c. bilateral_px lib src d sigmaColor sigmaSpace r c)"

text \<open>
  \<open>cv2.adaptiveThreshold(src, maxValue, ADAPTIVE_THRESH_MEAN_C, THRESH_BINARY_INV,
  blockSize, C)\<close>: a cell is \<open>maxValue\<close> when the source value is at most the mean of its
  blockSize x blockSize neighbourhood minus C, and 0 otherwise.
\<close>

definition adaptiveThreshold_mean_inv ::
  "('a cv2_scheme) \<Rightarrow> image \<Rightarrow> uint8 \<Rightarrow> nat \<Rightarrow> int \<Rightarrow> image" where
  "adaptiveThreshold_mean_inv lib src maxValue blockSize C =
     array_like src (\<lambda>r c.
       if uint (src ! r ! c) \<le> local_mean lib src blockSize r c - C then maxValue else 0)"

text \<open>
  \<open>cv2.getStructuringElement(cv2.MORPH_ELLIPSE, (3, 3))\<close>: the ellipse inscribed in a
  3 x 3 square is the cross.
\<close>

definition getStructuringElement_ellipse_3x3 :: image where
  "getStructuringElement_ellipse_3x3 = [[0, 1, 0], [1, 1, 1], [0, 1, 0]]"

text \<open>The offsets (row, column) of the nonzero kernel cells from the anchor, the centre.\<close>

definition kernel_offsets :: "image \<Rightarrow> (int \<times> int) list" where
  "kernel_offsets k =
     concat (map (\<lambda>i. map (\<lambda>j. (int i - int (length k div 2), int j - int (length (k ! i) div 2)))
                          (filter (\<lambda>j. k ! i ! j \<noteq> 0) [0..<length (k ! i)]))
                 [0..<length k])"

text \<open>
  Modelled from the spec: the opening of the Morphological Cleaner (section 4.3: "apply
  an erosion-then-dilation (opening) using that structuring element, repeated for the
  given iteration count") is OpenCV's \<open>cv2.morphologyEx\<close>, \<open>cv2.erode\<close> and \<open>cv2.dilate\<close>,
  whose code is not in the repository.  \<open>neighbours\<close> lists the source values under the
  kernel placed at (r, c); a cell outside the image counts as \<open>border\<close> (OpenCV's default
  constant border: the largest value for an erosion, the smallest for a dilation, so
  that it never decides the result).
\<close>

definition neighbours :: "image \<Rightarrow> image \<Rightarrow> uint8 \<Rightarrow> nat \<Rightarrow> nat \<Rightarrow> uint8 list" where
  "neighbours k img border r c =
     map (\<lambda>(dr, dc). case px img (int r + dr) (int c + dc) of Some v \<Rightarrow> v | None \<Rightarrow> border)
         (kernel_offsets k)"

text \<open>
  Modelled from the spec: \<open>cv2.erode\<close> (not in the repository) takes the minimum under
  the kernel, \<open>cv2.dilate\<close> (not in the repository) the maximum.
\<close>

definition erode :: "image \<Rightarrow> image \<Rightarrow> image" where
  "erode k img = array_like img (\<lambda>r c. fold min (neighbours k img 255 r c) 255)"

definition dilate :: "image \<Rightarrow> image \<Rightarrow> image" where
  "dilate k img = array_like img (\<lambda>r c. fold max (neighbours k img 0 r c) 0)"

text \<open>
  Modelled from the spec: \<open>cv2.morphologyEx(src, cv2.MORPH_OPEN, kernel, iterations=n)\<close>
  (not in the repository) is n erosions followed by n dilations.
\<close>

definition morphologyEx_open :: "image \<Rightarrow> image \<Rightarrow> nat \<Rightarrow> image" where
  "morphologyEx_open src kern iterations =
     ((dilate kern) ^^ iterations) (((erode kern) ^^ iterations) src)"

text \<open>
  Modelled from the spec: the other reading of "an erosion-then-dilation (opening) ...
  repeated for the given iteration count" (section 4.3; the library code is not in the
  repository): the pair erosion, dilation applied n times over.
\<close>

definition opening_repeated :: "image \<Rightarrow> image \<Rightarrow> nat \<Rightarrow> image" where
  "opening_repeated src kern iterations = ((\<lambda>m. dilate kern (erode kern m)) ^^ iterations) src"

text \<open>
  \<open>cv2.contourArea(cnt)\<close>: Green's formula over the contour's vertices, each joined to
  its predecessor and the first to the last; half the absolute value of the sum.
\<close>

definition green_sum :: "contour \<Rightarrow> int" where
  "green_sum cnt =
     (if cnt = [] then 0
      else sum_list (map (\<lambda>(prev, p). fst prev * snd p - snd prev * fst p)
                         (zip (last cnt # butlast cnt) cnt)))"

definition contourArea :: "contour \<Rightarrow> rat" where
  "contourArea cnt = \<bar>of_int (green_sum cnt)\<bar> / 2"

text \<open>
  \<open>cv2.drawContours(img, cnts, -1, color, -1)\<close> and \<open>cv2.fillPoly(img, polys, color)\<close>:
  every cell of the image that a filled polygon of the list covers takes the colour, the
  others keep their value.  Points are (x, y) = (column, row).
\<close>

definition drawContours :: "('a cv2_scheme) \<Rightarrow> image \<Rightarrow> contour list \<Rightarrow> uint8 \<Rightarrow> image" where
  "drawContours lib img cnts color =
     array_like img (\<lambda>r c.
       if list_ex (\<lambda>cnt. polyCover lib cnt (int c) (int r)) cnts then color else img ! r ! c)"

definition fillPoly :: "('a cv2_scheme) \<Rightarrow> image \<Rightarrow> contour list \<Rightarrow> uint8 \<Rightarrow> image" where
  "fillPoly lib img polys color =
     array_like img (\<lambda>r c.
       if list_ex (\<lambda>pts. polyCover lib pts (int c) (int r)) polys then color else img ! r ! c)"

text \<open>
  \<open>cv2.rectangle(img, pt1, pt2, color, -1)\<close>: the filled rectangle whose two opposite
  corners are \<open>pt1\<close> and \<open>pt2\<close>, as OpenCV documents it: the rows and columns of both
  corners are drawn, and what falls outside the image is clipped.
\<close>

definition rectangle :: "image \<Rightarrow> point \<Rightarrow> point \<Rightarrow> uint8 \<Rightarrow> image" where
  "rectangle img pt1 pt2 color =
     array_like img (\<lambda>r c.
       if min (fst pt1) (fst pt2) \<le> int c \<and> int c \<le> max (fst pt1) (fst pt2) \<and>
          min (snd pt1) (snd pt2) \<le> int r \<and> int r \<le> max (snd pt1) (snd pt2)
       then color else img ! r ! c)"

text \<open>\<open>cv2.bitwise_and(a, b)\<close>: cell by cell; OpenCV raises when the sizes differ.\<close>

definition bitwise_and :: "image \<Rightarrow> image \<Rightarrow> error + image" where
  "bitwise_and a b =
     (if dims a = dims b then Inr (array_like a (\<lambda>r c. a ! r ! c AND b ! r ! c))
      else Inl CvSizeError)"

section \<open>finalrun.py: the automatic pipeline\<close>

text \<open>
  The fields of \<open>OCTLesionAutoApp\<close> that the methods read and write.  A label holds the
  message it shows; the area it carries is printed with two decimals.  \<open>canvas_auto\<close> is
  what step 7 last drew: the original, the overlaid mask and the area of the title.
\<close>

datatype auto_label = LoadPrompt | LoadFailed | DamagedArea rat | ImageSaved

record auto_app =
  image_auto :: "image option"
  mask_auto :: "image option"
  mm_per_px :: rat
  label_info :: auto_label
  btn_clear_enabled :: bool
  btn_save_enabled :: bool
  canvas_auto :: "(image \<times> image \<times> rat) option"

definition init_auto :: auto_app where
  "init_auto = \<lparr>image_auto = None, mask_auto = None, mm_per_px = 0.01172,
     label_info = LoadPrompt, btn_clear_enabled = False, btn_save_enabled = False,
     canvas_auto = None\<rparr>"

text \<open>Steps 1 to 3 of \<open>process_image\<close>, each named after the local variable it computes.\<close>

definition blur :: "('a cv2_scheme) \<Rightarrow> image \<Rightarrow> image" where
  "blur lib img = bilateralFilter lib img 9 75 75"

definition thresh :: "('a cv2_scheme) \<Rightarrow> image \<Rightarrow> image" where
  "thresh lib img = adaptiveThreshold_mean_inv lib (blur lib img) 255 35 5"

definition opened :: "('a cv2_scheme) \<Rightarrow> image \<Rightarrow> image" where
  "opened lib img = morphologyEx_open (thresh lib img) getStructuringElement_ellipse_3x3 2"

text \<open>Step 4: the loop over the contours of the opened mask, from an all-zero mask.\<close>

definition filter_step :: "('a cv2_scheme) \<Rightarrow> contour \<Rightarrow> image \<Rightarrow> image" where
  "filter_step lib cnt mask_clean =
     (let area = contourArea cnt
      in if 100 < area \<and> area < 3000 then drawContours lib mask_clean [cnt] 255
         else mask_clean)"

definition mask_clean :: "('a cv2_scheme) \<Rightarrow> image \<Rightarrow> image" where
  "mask_clean lib opened_mask =
     fold (filter_step lib) (findContours lib opened_mask) (zeros_like opened_mask)"

text \<open>Step 5: the rectangle of the central rows, and the intersection with it.\<close>

definition roi_mask :: "image \<Rightarrow> image" where
  "roi_mask img =
     (let h = fst (shape img); w = snd (shape img)
      in rectangle (zeros_like img) (0, py_int (of_nat h * 0.2))
           (int w, py_int (of_nat h * 0.85)) 255)"

definition final_mask :: "image \<Rightarrow> image \<Rightarrow> error + image" where
  "final_mask img clean = bitwise_and clean (roi_mask img)"

definition process_image :: "('a cv2_scheme) \<Rightarrow> auto_app \<Rightarrow> error + auto_app" where
  "process_image lib st =
     (case image_auto st of
        None \<Rightarrow> Inl AttributeError
      | Some img \<Rightarrow>
          (case final_mask img (mask_clean lib (opened lib img)) of
             Inl e \<Rightarrow> Inl e
           | Inr final \<Rightarrow>
               let damaged_px = count_nonzero final;
                   area_mm2 = of_nat damaged_px * (mm_per_px st)\<^sup>2
               in Inr (st\<lparr>mask_auto := Some final,
                          canvas_auto := Some (img, final, area_mm2),
                          label_info := DamagedArea area_mm2,
                          btn_clear_enabled := True,
                          btn_save_enabled := True\<rparr>)))"

text \<open>
  \<open>load_image\<close>: \<open>file_path\<close> is what the file dialog returned, the empty string when it
  was cancelled.
\<close>

definition load_image_auto :: "('a cv2_scheme) \<Rightarrow> auto_app \<Rightarrow> string \<Rightarrow> error + auto_app" where
  "load_image_auto lib st file_path =
     (if file_path = [] then Inr st
      else (case imread lib file_path of
              None \<Rightarrow> Inr (st\<lparr>label_info := LoadFailed\<rparr>)
            | Some img \<Rightarrow> process_image lib (st\<lparr>image_auto := Some img\<rparr>)))"

text \<open>
  \<open>save_result\<close>: \<open>path\<close> is what the save dialog returned; the written file is outside
  the state.
\<close>

definition save_result :: "auto_app \<Rightarrow> string \<Rightarrow> auto_app" where
  "save_result st path =
     (if image_auto st = None \<or> mask_auto st = None then st
      else if path \<noteq> [] then st\<lparr>label_info := ImageSaved\<rparr> else st)"

definition reset_view :: "auto_app \<Rightarrow> auto_app" where
  "reset_view st = st\<lparr>canvas_auto := None, image_auto := None, mask_auto := None,
     label_info := LoadPrompt, btn_clear_enabled := False, btn_save_enabled := False\<rparr>"

section \<open>tempCodeRunnerFile.py: the manual trace\<close>

text \<open>
  The fields of \<open>LesionAreaApp\<close>.  \<open>canvas_manual\<close> is what \<open>show_image\<close> last drew: the
  image, when there is one, and the polyline of the points.  A mouse event carries
  whether it lies in the axes and its data coordinates.
\<close>

datatype manual_label = DrawLesionPrompt | DrawClosedRegion | LesionArea rat

record lesion_app =
  image_manual :: "image option"
  drawing :: bool
  points :: "(rat \<times> rat) list"
  pixel_spacing_mm :: rat
  area_label :: manual_label
  canvas_manual :: "image option \<times> (rat \<times> rat) list"

record mouse_event =
  inaxes :: bool
  xdata :: rat
  ydata :: rat

definition init_manual :: lesion_app where
  "init_manual = \<lparr>image_manual = None, drawing = False, points = [],
     pixel_spacing_mm = 0.006, area_label = DrawLesionPrompt, canvas_manual = (None, [])\<rparr>"

definition show_image :: "lesion_app \<Rightarrow> lesion_app" where
  "show_image st = st\<lparr>canvas_manual := (image_manual st, points st)\<rparr>"

definition load_image_manual :: "('a cv2_scheme) \<Rightarrow> lesion_app \<Rightarrow> string \<Rightarrow> lesion_app" where
  "load_image_manual lib st file_path =
     (if file_path \<noteq> [] then show_image (st\<lparr>image_manual := imread lib file_path\<rparr>)
      else st)"

definition clear_points :: "lesion_app \<Rightarrow> lesion_app" where
  "clear_points st = show_image (st\<lparr>points := [], area_label := DrawLesionPrompt\<rparr>)"

definition on_click :: "lesion_app \<Rightarrow> mouse_event \<Rightarrow> lesion_app" where
  "on_click st event =
     (if \<not> inaxes event \<or> image_manual st = None then st
      else st\<lparr>drawing := True, points := [(xdata event, ydata event)]\<rparr>)"

definition on_motion :: "lesion_app \<Rightarrow> mouse_event \<Rightarrow> lesion_app" where
  "on_motion st event =
     (if drawing st \<and> inaxes event
      then show_image (st\<lparr>points := points st @ [(xdata event, ydata event)]\<rparr>)
      else st)"

text \<open>\<open>np.array(self.points, dtype=np.int32)\<close>: each coordinate cut towards zero.\<close>

definition to_int32 :: "(rat \<times> rat) list \<Rightarrow> contour" where
  "to_int32 ps = map (\<lambda>(x, y). (py_int x, py_int y)) ps"

definition polygon_mask :: "('a cv2_scheme) \<Rightarrow> nat \<times> nat \<Rightarrow> (rat \<times> rat) list \<Rightarrow> image" where
  "polygon_mask lib s ps = fillPoly lib (zeros s) [to_int32 ps] 1"

definition calculate_area :: "('a cv2_scheme) \<Rightarrow> lesion_app \<Rightarrow> error + lesion_app" where
  "calculate_area lib st =
     (if length (points st) < 3 then Inr (st\<lparr>area_label := DrawClosedRegion\<rparr>)
      else (case image_manual st of
              None \<Rightarrow> Inl AttributeError
            | Some img \<Rightarrow>
                let mask = polygon_mask lib (shape img) (points st);
                    pixel_area = np_sum mask;
                    mm2_area = of_nat pixel_area * (pixel_spacing_mm st)\<^sup>2
                in Inr (show_image (st\<lparr>area_label := LesionArea mm2_area\<rparr>))))"

definition on_release :: "('a cv2_scheme) \<Rightarrow> lesion_app \<Rightarrow> mouse_event \<Rightarrow> error + lesion_app" where
  "on_release lib st event =
     (if \<not> drawing st then Inr st else calculate_area lib (st\<lparr>drawing := False\<rparr>))"

text \<open>The callbacks as the events of the window; an exception ends the run.\<close>

datatype ui_event =
  Load string | Clear | Press mouse_event | Motion mouse_event | Release mouse_event

fun handle :: "('a cv2_scheme) \<Rightarrow> lesion_app \<Rightarrow> ui_event \<Rightarrow> error + lesion_app" where
  "handle lib st (Load file_path) = Inr (load_image_manual lib st file_path)"
| "handle lib st Clear = Inr (clear_points st)"
| "handle lib st (Press e) = Inr (on_click st e)"
| "handle lib st (Motion e) = Inr (on_motion st e)"
| "handle lib st (Release e) = on_release lib st e"

fun run :: "('a cv2_scheme) \<Rightarrow> lesion_app \<Rightarrow> ui_event list \<Rightarrow> error + lesion_app" where
  "run lib st [] = Inr st"
| "run lib st (e # es) = (case handle lib st e of Inl err \<Rightarrow> Inl err | Inr st' \<Rightarrow> run lib st' es)"

fun is_press :: "ui_event \<Rightarrow> bool" where
  "is_press (Press e) = True"
| "is_press other = False"

section \<open>A worked instance of the library\<close>

text \<open>
  For concrete runs the library parameters are instantiated: the filter returns its
  input, the local mean is the constant 128, the contours of the mask are given, no file
  decodes, and a polygon covers the points on its boundary and those inside it (an odd
  number of edges crossed by the ray to the right).
\<close>

definition poly_edges :: "contour \<Rightarrow> (point \<times> point) list" where
  "poly_edges pts = zip pts (rotate1 pts)"

definition on_edge :: "int \<Rightarrow> int \<Rightarrow> point \<times> point \<Rightarrow> bool" where
  "on_edge x y e =
     (let ax = fst (fst e); ay = snd (fst e); bx = fst (snd e); by = snd (snd e)
      in (bx - ax) * (y - ay) - (by - ay) * (x - ax) = 0 \<and>
         min ax bx \<le> x \<and> x \<le> max ax bx \<and> min ay by \<le> y \<and> y \<le> max ay by)"

definition crosses :: "int \<Rightarrow> int \<Rightarrow> point \<times> point \<Rightarrow> bool" where
  "crosses x y e =
     (let ax = fst (fst e); ay = snd (fst e); bx = fst (snd e); by = snd (snd e)
      in (y < ay) \<noteq> (y < by) \<and>
         (if ay < by then (x - ax) * (by - ay) < (bx - ax) * (y - ay)
          else (bx - ax) * (y - ay) < (x - ax) * (by - ay)))"

definition poly_cover :: "contour \<Rightarrow> int \<Rightarrow> int \<Rightarrow> bool" where
  "poly_cover pts x y =
     (list_ex (on_edge x y) (poly_edges pts) \<or>
      odd (length (filter (crosses x y) (poly_edges pts))))"

definition example_cv :: "contour list \<Rightarrow> cv2" where
  "example_cv cnts = \<lparr>bilateral_px = (\<lambda>img d sc ss r c. img ! r ! c),
     local_mean = (\<lambda>img b r c. 128), findContours = (\<lambda>img. cnts),
     polyCover = poly_cover, imread = (\<lambda>path. None)\<rparr>"


definition island :: "nat \<Rightarrow> nat \<Rightarrow> image" where
  "island h w =
     replicate (w + 2) 0 # replicate h (0 # replicate w 255 @ [0]) @ [replicate (w + 2) 0]"

definition island_contour :: "nat \<Rightarrow> nat \<Rightarrow> contour" where
  "island_contour h w = [(1, 1), (1, int h), (int w, int h), (int w, 1)]"

section \<open>Notions used in the proofs\<close>

text \<open>
  Two arrays of the same size compared cell by cell, and a kernel that holds the opposite
  of each of its offsets.
\<close>

definition img_le :: "image \<Rightarrow> image \<Rightarrow> bool" where
  "img_le a b = (dims a = dims b \<and>
     (\<forall>r c. r < length a \<longrightarrow> c < length (a ! r) \<longrightarrow> a ! r ! c \<le> b ! r ! c))"

definition symmetric_kernel :: "image \<Rightarrow> bool" where
  "symmetric_kernel k = (\<forall>d \<in> set (kernel_offsets k). (- fst d, - snd d) \<in> set (kernel_offsets k))"




text \<open>
  The spec's Region (section 3), in its words: "a maximal 8-connected ... connected
  component of foreground cells within a BinaryMask".  Cells are (row, column); two cells
  are adjacent when they differ by at most 1 in each coordinate; a region is the set of
  all cells that a chain of adjacent foreground cells joins to one foreground cell.
\<close>

definition fg :: "image \<Rightarrow> int \<times> int \<Rightarrow> bool" where
  "fg m p = (case px m (fst p) (snd p) of Some v \<Rightarrow> v \<noteq> 0 | None \<Rightarrow> False)"

definition adjacent8 :: "int \<times> int \<Rightarrow> int \<times> int \<Rightarrow> bool" where
  "adjacent8 p q = (p \<noteq> q \<and> \<bar>fst p - fst q\<bar> \<le> 1 \<and> \<bar>snd p - snd q\<bar> \<le> 1)"

definition fg_step :: "image \<Rightarrow> ((int \<times> int) \<times> (int \<times> int)) set" where
  "fg_step m = {(p, q). fg m p \<and> fg m q \<and> adjacent8 p q}"

definition spec_region :: "image \<Rightarrow> (int \<times> int) set \<Rightarrow> bool" where
  "spec_region m S = (\<exists>p. fg m p \<and> S = {q. (p, q) \<in> (fg_step m)\<^sup>*})"

text \<open>
  \<open>grid n P\<close> is the n x n mask whose cell (r, c) is foreground exactly when \<open>P r c\<close>.
\<close>

definition grid :: "nat \<Rightarrow> (int \<Rightarrow> int \<Rightarrow> bool) \<Rightarrow> image" where
  "grid n P = map (\<lambda>r. map (\<lambda>c. if P (int r) (int c) then 255 else 0) [0..<n]) [0..<n]"

text \<open>
  An example image of 85 x 85 and its masks.  With \<open>dist1\<close> the city-block distance of
  a cell from the centre (42, 42), the cells of \<open>diamonds_cell\<close> form two regions: a
  diamond of radius 8 and, around it, a diamond-shaped ring of the cells at distance 35
  to 39, with background between them.  \<open>diamonds_image\<close> is dark (0) on those cells and
  bright (255) elsewhere; \<open>diamonds_mask\<close> has those cells as foreground;
  \<open>diamonds_seed\<close> are the cells at distance at most 6 or exactly 37, from which two
  dilations give \<open>diamonds_mask\<close>; \<open>band\<close> is the general form of such a pair.
  \<open>inner_diamond\<close> is the set of cells of the inner diamond.  \<open>diamond_contour \<rho>\<close> is
  the boundary of the diamond of radius \<open>\<rho>\<close> as \<open>cv2.findContours\<close> reports it with
  \<open>CHAIN_APPROX_SIMPLE\<close>: its four tips, as (x, y) points.  For \<open>diamonds_mask\<close>,
  \<open>RETR_EXTERNAL\<close> returns one contour, the ring's outer boundary \<open>diamond_contour 39\<close>;
  the inner diamond, nested in the ring's hole, gets none.
\<close>

definition dist1 :: "int \<Rightarrow> int \<Rightarrow> int" where
  "dist1 r c = \<bar>r - 42\<bar> + \<bar>c - 42\<bar>"

definition diamonds_cell :: "int \<Rightarrow> int \<Rightarrow> bool" where
  "diamonds_cell r c = (dist1 r c \<le> 8 \<or> (35 \<le> dist1 r c \<and> dist1 r c \<le> 39))"

definition diamonds_seed :: "int \<Rightarrow> int \<Rightarrow> bool" where
  "diamonds_seed r c = (dist1 r c \<le> 6 \<or> dist1 r c = 37)"

definition band :: "int \<Rightarrow> int \<Rightarrow> int \<Rightarrow> int \<Rightarrow> int \<Rightarrow> bool" where
  "band lo a b r c = (dist1 r c \<le> lo \<or> (a \<le> dist1 r c \<and> dist1 r c \<le> b))"

definition diamonds_mask :: image where
  "diamonds_mask = grid 85 diamonds_cell"

definition diamonds_image :: image where
  "diamonds_image = grid 85 (\<lambda>r c. \<not> diamonds_cell r c)"

definition inner_diamond :: "(int \<times> int) set" where
  "inner_diamond = {p. dist1 (fst p) (snd p) \<le> 8}"

definition diamond_contour :: "int \<Rightarrow> contour" where
  "diamond_contour \<rho> = [(42, 42 - \<rho>), (42 - \<rho>, 42), (42, 42 + \<rho>), (42 + \<rho>, 42)]"

section \<open>Facts about arrays\<close>

lemma length_array_like: "length (array_like img f) = length img"
  by (simp add: array_like_def)

lemma dims_array_like: "dims (array_like img f) = dims img"
  by (rule nth_equalityI) (simp_all add: dims_def array_like_def)

lemma length_row_array_like:
  "r < length img \<Longrightarrow> length (array_like img f ! r) = length (img ! r)"
  by (simp add: array_like_def)

lemma nth_array_like:
  "r < length img \<Longrightarrow> c < length (img ! r) \<Longrightarrow> array_like img f ! r ! c = f r c"
  by (simp add: array_like_def)

lemma dims_length: "dims a = dims b \<Longrightarrow> length a = length b"
  by (metis dims_def length_map)

lemma dims_row: "dims a = dims b \<Longrightarrow> r < length a \<Longrightarrow> length (a ! r) = length (b ! r)"
  by (metis dims_def length_map nth_map)

lemma image_eqI:
  assumes "dims a = dims b"
    and "\<And>r c. r < length a \<Longrightarrow> c < length (a ! r) \<Longrightarrow> a ! r ! c = b ! r ! c"
  shows "a = b"
proof (rule nth_equalityI)
  show "length a = length b" using assms(1) by (rule dims_length)
next
  fix r assume r: "r < length a"
  have len: "length (a ! r) = length (b ! r)" using assms(1) r by (rule dims_row)
  show "a ! r = b ! r"
    by (rule nth_equalityI) (use len assms(2) r in auto)
qed

lemma px_Some_iff:
  "px img r c = Some v \<longleftrightarrow>
     0 \<le> r \<and> 0 \<le> c \<and> nat r < length img \<and> nat c < length (img ! nat r) \<and> v = img ! nat r ! nat c"
  by (auto simp: px_def)

lemma le_fold_min_iff:
  "v \<le> fold min xs (b::'a::linorder) \<longleftrightarrow> v \<le> b \<and> (\<forall>x\<in>set xs. v \<le> x)"
  by (induction xs arbitrary: b) auto

lemma fold_max_le_iff:
  "fold max xs (b::'a::linorder) \<le> v \<longleftrightarrow> b \<le> v \<and> (\<forall>x\<in>set xs. x \<le> v)"
  by (induction xs arbitrary: b) auto

lemma uint8_le_255: "(v::uint8) \<le> 255"
proof -
  have "(255::uint8) = - 1" by simp
  then show ?thesis by (metis word_n1_ge)
qed

lemma kernel_offsets_ellipse:
  "kernel_offsets getStructuringElement_ellipse_3x3 = [(-1, 0), (0, -1), (0, 0), (0, 1), (1, 0)]"
  by code_simp

section \<open>Erosion and dilation are adjoint\<close>

text \<open>
  For a symmetric kernel, \<open>dilate k g\<close> lies below \<open>f\<close> exactly when \<open>g\<close> lies below
  \<open>erode k f\<close>; the same holds for n-fold iterates, and an opening built from such a
  pair changes nothing when applied again.
\<close>

lemma img_le_refl: "img_le a a"
  by (simp add: img_le_def)

lemma img_le_trans:
  assumes ab: "img_le a b" and bc: "img_le b c"
  shows "img_le a c"
  unfolding img_le_def
proof (intro conjI allI impI)
  show "dims a = dims c" using ab bc by (simp add: img_le_def)
next
  fix r col assume r: "r < length a" and col: "col < length (a ! r)"
  have d: "dims a = dims b" using ab by (simp add: img_le_def)
  have rb: "r < length b" using d r by (simp add: dims_length [OF d, symmetric])
  have cb: "col < length (b ! r)" using col by (simp add: dims_row [OF d r, symmetric])
  have "a ! r ! col \<le> b ! r ! col" using ab r col by (simp add: img_le_def)
  also have "b ! r ! col \<le> c ! r ! col" using bc rb cb by (simp add: img_le_def)
  finally show "a ! r ! col \<le> c ! r ! col" .
qed

lemma img_le_antisym:
  assumes ab: "img_le a b" and ba: "img_le b a"
  shows "a = b"
proof (rule image_eqI)
  show d: "dims a = dims b" using ab by (simp add: img_le_def)
  fix r col assume r: "r < length a" and col: "col < length (a ! r)"
  have rb: "r < length b" using r by (simp add: dims_length [OF d, symmetric])
  have cb: "col < length (b ! r)" using col by (simp add: dims_row [OF d r, symmetric])
  have "a ! r ! col \<le> b ! r ! col" using ab r col by (simp add: img_le_def)
  moreover have "b ! r ! col \<le> a ! r ! col" using ba rb cb by (simp add: img_le_def)
  ultimately show "a ! r ! col = b ! r ! col" by (rule order_antisym)
qed

lemma img_le_dims: "img_le a b \<Longrightarrow> dims a = dims b"
  by (simp add: img_le_def)

lemma dims_erode: "dims (erode k img) = dims img"
  by (simp add: erode_def dims_array_like)

lemma dims_dilate: "dims (dilate k img) = dims img"
  by (simp add: dilate_def dims_array_like)

lemma neighbours_cases:
  "x \<in> set (neighbours k img b r c) \<Longrightarrow>
     x = b \<or> (\<exists>dr dc. (dr, dc) \<in> set (kernel_offsets k) \<and> px img (int r + dr) (int c + dc) = Some x)"
  unfolding neighbours_def by (auto split: option.splits)

lemma neighbours_mem:
  assumes "(dr, dc) \<in> set (kernel_offsets k)" "px img (int r + dr) (int c + dc) = Some v"
  shows "v \<in> set (neighbours k img b r c)"
proof -
  let ?f = "\<lambda>(dr, dc). case px img (int r + dr) (int c + dc) of Some v \<Rightarrow> v | None \<Rightarrow> b"
  have "?f (dr, dc) \<in> ?f ` set (kernel_offsets k)"
    using assms(1) by (rule imageI)
  moreover have "?f (dr, dc) = v"
    using assms(2) by simp
  ultimately show ?thesis
    unfolding neighbours_def by simp
qed

lemma dilate_le_iff:
  assumes "r < length img" "c < length (img ! r)"
  shows "dilate k img ! r ! c \<le> u \<longleftrightarrow>
    (\<forall>dr dc v. (dr, dc) \<in> set (kernel_offsets k) \<longrightarrow> px img (int r + dr) (int c + dc) = Some v \<longrightarrow> v \<le> u)"
proof -
  have "dilate k img ! r ! c = fold max (neighbours k img 0 r c) 0"
    using assms by (simp add: dilate_def nth_array_like)
  then show ?thesis
    by (auto simp: fold_max_le_iff neighbours_mem dest!: neighbours_cases)
qed

lemma le_erode_iff:
  assumes "r < length img" "c < length (img ! r)"
  shows "u \<le> erode k img ! r ! c \<longleftrightarrow>
    (\<forall>dr dc v. (dr, dc) \<in> set (kernel_offsets k) \<longrightarrow> px img (int r + dr) (int c + dc) = Some v \<longrightarrow> u \<le> v)"
proof -
  have "erode k img ! r ! c = fold min (neighbours k img 255 r c) 255"
    using assms by (simp add: erode_def nth_array_like)
  then show ?thesis
    by (auto simp: le_fold_min_iff uint8_le_255 neighbours_mem dest!: neighbours_cases)
qed

lemma dilate_erode_adjoint:
  assumes sym: "symmetric_kernel k" and d: "dims g = dims f"
  shows "img_le (dilate k g) f \<longleftrightarrow> img_le g (erode k f)"
proof
  assume H: "img_le (dilate k g) f"
  show "img_le g (erode k f)"
    unfolding img_le_def
  proof (intro conjI allI impI)
    show "dims g = dims (erode k f)" using d by (simp add: dims_erode)
  next
    fix r c assume r: "r < length g" and c: "c < length (g ! r)"
    have rf: "r < length f" and cf: "c < length (f ! r)"
      using r c d dims_length dims_row by metis+
    show "g ! r ! c \<le> erode k f ! r ! c"
      unfolding le_erode_iff [OF rf cf]
    proof (intro allI impI)
      fix dr dc v
      assume k: "(dr, dc) \<in> set (kernel_offsets k)"
        and p: "px f (int r + dr) (int c + dc) = Some v"
      define r' where "r' = nat (int r + dr)"
      define c' where "c' = nat (int c + dc)"
      from p have b: "0 \<le> int r + dr" "0 \<le> int c + dc" "r' < length f" "c' < length (f ! r')"
        and v: "v = f ! r' ! c'"
        by (simp_all add: px_Some_iff r'_def c'_def)
      have bg: "r' < length g" "c' < length (g ! r')"
        using b d dims_length dims_row by metis+
      have bd: "r' < length (dilate k g)" "c' < length (dilate k g ! r')"
        using bg by (simp_all add: dilate_def length_array_like length_row_array_like)
      have le: "dilate k g ! r' ! c' \<le> f ! r' ! c'"
        using H bd by (simp add: img_le_def)
      have k': "(- dr, - dc) \<in> set (kernel_offsets k)"
        using sym k by (force simp: symmetric_kernel_def)
      have bk: "px g (int r' + - dr) (int c' + - dc) = Some (g ! r ! c)"
        using b r c by (simp add: r'_def c'_def px_def)
      have "g ! r ! c \<le> dilate k g ! r' ! c'"
        using dilate_le_iff [OF bg, of k "dilate k g ! r' ! c'"] k' bk by blast
      then show "g ! r ! c \<le> v" using le v by simp
    qed
  qed
next
  assume H: "img_le g (erode k f)"
  show "img_le (dilate k g) f"
    unfolding img_le_def
  proof (intro conjI allI impI)
    show "dims (dilate k g) = dims f" using d by (simp add: dims_dilate)
  next
    fix r c assume "r < length (dilate k g)" and "c < length (dilate k g ! r)"
    then have r: "r < length g" and c: "c < length (g ! r)"
      by (simp_all add: dilate_def length_array_like length_row_array_like)
    have rf: "r < length f" and cf: "c < length (f ! r)"
      using r c d dims_length dims_row by metis+
    show "dilate k g ! r ! c \<le> f ! r ! c"
      unfolding dilate_le_iff [OF r c]
    proof (intro allI impI)
      fix dr dc v
      assume k: "(dr, dc) \<in> set (kernel_offsets k)"
        and p: "px g (int r + dr) (int c + dc) = Some v"
      define r' where "r' = nat (int r + dr)"
      define c' where "c' = nat (int c + dc)"
      from p have b: "0 \<le> int r + dr" "0 \<le> int c + dc" "r' < length g" "c' < length (g ! r')"
        and v: "v = g ! r' ! c'"
        by (simp_all add: px_Some_iff r'_def c'_def)
      have bf: "r' < length f" "c' < length (f ! r')"
        using b d dims_length dims_row by metis+
      have le: "g ! r' ! c' \<le> erode k f ! r' ! c'"
        using H b by (simp add: img_le_def)
      have k': "(- dr, - dc) \<in> set (kernel_offsets k)"
        using sym k by (force simp: symmetric_kernel_def)
      have bk: "px f (int r' + - dr) (int c' + - dc) = Some (f ! r ! c)"
        using b rf cf by (simp add: r'_def c'_def px_def)
      have "erode k f ! r' ! c' \<le> f ! r ! c"
        using le_erode_iff [OF bf, of "erode k f ! r' ! c'" k] k' bk by blast
      then show "v \<le> f ! r ! c" using le v by simp
    qed
  qed
qed


lemma dims_funpow_erode: "dims ((erode k ^^ n) img) = dims img"
  by (induction n) (simp_all add: dims_erode)

lemma dims_funpow_dilate: "dims ((dilate k ^^ n) img) = dims img"
  by (induction n) (simp_all add: dims_dilate)

lemma funpow_adjoint:
  assumes sym: "symmetric_kernel k"
  shows "dims g = dims f \<Longrightarrow>
    img_le ((dilate k ^^ n) g) f \<longleftrightarrow> img_le g ((erode k ^^ n) f)"
proof (induction n arbitrary: f)
  case 0
  show ?case by simp
next
  case (Suc n)
  have "img_le ((dilate k ^^ Suc n) g) f \<longleftrightarrow> img_le (dilate k ((dilate k ^^ n) g)) f"
    by simp
  also have "\<dots> \<longleftrightarrow> img_le ((dilate k ^^ n) g) (erode k f)"
    by (rule dilate_erode_adjoint [OF sym]) (simp add: dims_funpow_dilate Suc.prems)
  also have "\<dots> \<longleftrightarrow> img_le g ((erode k ^^ n) (erode k f))"
    by (rule Suc.IH) (simp add: dims_erode Suc.prems)
  also have "(erode k ^^ n) (erode k f) = (erode k ^^ Suc n) f"
    by (simp add: funpow_swap1)
  finally show ?case .
qed

lemma opening_below:
  assumes "symmetric_kernel k"
  shows "img_le (morphologyEx_open f k n) f"
  unfolding morphologyEx_open_def
  by (subst funpow_adjoint [OF assms]) (simp_all add: dims_funpow_erode img_le_refl)

lemma closing_above:
  assumes "symmetric_kernel k"
  shows "img_le g ((erode k ^^ n) ((dilate k ^^ n) g))"
  by (subst funpow_adjoint [OF assms, symmetric]) (simp_all add: dims_funpow_dilate img_le_refl)

lemma funpow_erode_mono:
  assumes sym: "symmetric_kernel k" and le: "img_le a b"
  shows "img_le ((erode k ^^ n) a) ((erode k ^^ n) b)"
proof -
  have "img_le ((dilate k ^^ n) ((erode k ^^ n) a)) a"
    using opening_below [OF sym, of a n] by (simp add: morphologyEx_open_def)
  then have "img_le ((dilate k ^^ n) ((erode k ^^ n) a)) b"
    using le by (rule img_le_trans)
  moreover have "dims ((erode k ^^ n) a) = dims b"
    using le by (simp add: dims_funpow_erode img_le_dims)
  ultimately show ?thesis
    using funpow_adjoint [OF sym] by blast
qed

lemma erode_opening:
  assumes sym: "symmetric_kernel k"
  shows "(erode k ^^ n) (morphologyEx_open f k n) = (erode k ^^ n) f"
proof (rule img_le_antisym)
  show "img_le ((erode k ^^ n) (morphologyEx_open f k n)) ((erode k ^^ n) f)"
    using sym opening_below [OF sym] by (rule funpow_erode_mono)
next
  show "img_le ((erode k ^^ n) f) ((erode k ^^ n) (morphologyEx_open f k n))"
    unfolding morphologyEx_open_def by (rule closing_above [OF sym])
qed

lemma opening_idempotent:
  assumes "symmetric_kernel k"
  shows "morphologyEx_open (morphologyEx_open f k n) k n = morphologyEx_open f k n"
proof -
  have "morphologyEx_open (morphologyEx_open f k n) k n
      = (dilate k ^^ n) ((erode k ^^ n) (morphologyEx_open f k n))"
    by (simp add: morphologyEx_open_def)
  also have "\<dots> = (dilate k ^^ n) ((erode k ^^ n) f)"
    by (simp only: erode_opening [OF assms])
  finally show ?thesis by (simp add: morphologyEx_open_def)
qed

lemma single_opening_idempotent:
  assumes "symmetric_kernel k"
  shows "dilate k (erode k (dilate k (erode k m))) = dilate k (erode k m)"
  using opening_idempotent [OF assms, of m 1] by (simp add: morphologyEx_open_def)

lemma symmetric_ellipse: "symmetric_kernel getStructuringElement_ellipse_3x3"
  unfolding symmetric_kernel_def kernel_offsets_ellipse by simp

section \<open>Facts about the manual trace\<close>

lemma idle_stays_empty:
  "\<not> drawing st \<Longrightarrow> points st = [] \<Longrightarrow> \<not> list_ex is_press es \<Longrightarrow>
     \<exists>st'. run lib st es = Inr st' \<and> points st' = [] \<and> \<not> drawing st'"
proof (induction es arbitrary: st)
  case Nil
  then show ?case by simp
next
  case (Cons e es)
  from Cons.prems have rest: "\<not> list_ex is_press es" and e: "\<not> is_press e" by simp_all
  obtain st1 where h: "handle lib st e = Inr st1" and p: "points st1 = []" and d: "\<not> drawing st1"
    using Cons.prems(1,2) e
    by (cases e)
       (auto simp: load_image_manual_def show_image_def clear_points_def on_motion_def
          on_release_def)
  from Cons.IH [OF d p rest] h show ?case by simp
qed







lemma array_like_cells:
  assumes "row \<in> set (array_like img f)" "v \<in> set row"
  shows "\<exists>r c. r < length img \<and> c < length (img ! r) \<and> v = f r c"
proof -
  from assms(1) obtain r where r: "r < length img" and row: "row = array_like img f ! r"
    by (metis in_set_conv_nth length_array_like)
  from assms(2) row obtain c where c: "c < length (img ! r)" and v: "v = array_like img f ! r ! c"
    by (metis in_set_conv_nth length_row_array_like r)
  show ?thesis using r c v by (auto simp: nth_array_like)
qed

lemma np_sum_count:
  assumes "\<And>row v. row \<in> set m \<Longrightarrow> v \<in> set row \<Longrightarrow> v = 0 \<or> v = 1"
  shows "np_sum m = count_nonzero m"
proof -
  have row: "sum_list (map unat row) = length (filter (\<lambda>v. v \<noteq> 0) row)"
    if "\<And>v. v \<in> set row \<Longrightarrow> v = 0 \<or> v = (1::uint8)" for row
    using that
  proof (induction row)
    case Nil
    show ?case by simp
  next
    case (Cons a row)
    have a: "a = 0 \<or> a = 1" by (simp add: Cons.prems)
    have "sum_list (map unat row) = length (filter (\<lambda>v. v \<noteq> 0) row)"
      by (rule Cons.IH) (simp add: Cons.prems)
    then show ?case using a by auto
  qed
  have "map (\<lambda>row. sum_list (map unat row)) m = map (\<lambda>row. length (filter (\<lambda>v. v \<noteq> 0) row)) m"
    by (rule map_cong [OF refl]) (use assms row in blast)
  then show ?thesis by (simp only: np_sum_def count_nonzero_def)
qed

lemma np_sum_polygon_mask:
  "np_sum (polygon_mask lib s ps) = count_nonzero (polygon_mask lib s ps)"
proof (rule np_sum_count)
  fix row v assume "row \<in> set (polygon_mask lib s ps)" "v \<in> set row"
  then show "v = 0 \<or> v = 1"
    unfolding polygon_mask_def fillPoly_def
    by (auto dest!: array_like_cells simp: zeros_def split: if_splits)
qed

lemma count_nonzero_all_zero:
  assumes "\<And>row v. row \<in> set m \<Longrightarrow> v \<in> set row \<Longrightarrow> v = 0"
  shows "count_nonzero m = 0"
proof -
  have "filter (\<lambda>v. v \<noteq> 0) row = []" if "row \<in> set m" for row
    using assms that by (auto simp: filter_empty_conv)
  then show ?thesis by (simp add: count_nonzero_def)
qed



lemma calculate_area_value:
  assumes "3 \<le> length (points st)" "image_manual st = Some img"
  shows "calculate_area lib st =
     Inr (show_image (st\<lparr>area_label := LesionArea
        (of_nat (count_nonzero (polygon_mask lib (shape img) (points st))) * (pixel_spacing_mm st)\<^sup>2)\<rparr>))"
  using assms by (simp add: calculate_area_def Let_def np_sum_polygon_mask)


section \<open>Facts about the automatic pipeline\<close>

lemma dims_opened: "dims (opened lib img) = dims img"
  by (simp add: opened_def thresh_def blur_def morphologyEx_open_def dims_funpow_erode
      dims_funpow_dilate adaptiveThreshold_mean_inv_def bilateralFilter_def dims_array_like)

lemma dims_filter_step: "dims (filter_step lib cnt m) = dims m"
  by (simp add: filter_step_def Let_def drawContours_def dims_array_like)

lemma dims_fold_filter_step: "dims (fold (filter_step lib) cs m) = dims m"
  by (induction cs arbitrary: m) (simp_all add: dims_filter_step)

lemma dims_mask_clean: "dims (mask_clean lib om) = dims om"
  by (simp add: mask_clean_def dims_fold_filter_step zeros_like_def dims_array_like)

lemma dims_roi_mask: "dims (roi_mask img) = dims img"
  by (simp add: roi_mask_def Let_def rectangle_def zeros_like_def dims_array_like)

lemma filter_step_nth:
  assumes "r < length m" "c < length (m ! r)"
  shows "filter_step lib cnt m ! r ! c =
     (if 100 < contourArea cnt \<and> contourArea cnt < 3000 \<and> polyCover lib cnt (int c) (int r)
      then 255 else m ! r ! c)"
  using assms by (simp add: filter_step_def Let_def drawContours_def nth_array_like)

lemma fold_filter_step_nth:
  "r < length m \<Longrightarrow> c < length (m ! r) \<Longrightarrow>
   fold (filter_step lib) cs m ! r ! c =
     (if \<exists>cnt\<in>set cs. 100 < contourArea cnt \<and> contourArea cnt < 3000 \<and>
           polyCover lib cnt (int c) (int r)
      then 255 else m ! r ! c)"
proof (induction cs arbitrary: m)
  case Nil
  show ?case by simp
next
  case (Cons cnt cs)
  let ?m = "filter_step lib cnt m"
  have d: "dims ?m = dims m" by (rule dims_filter_step)
  have r: "r < length ?m" using Cons.prems(1) dims_length [OF d] by simp
  have c: "c < length (?m ! r)" using Cons.prems dims_row [OF d r] by simp
  have "fold (filter_step lib) (cnt # cs) m ! r ! c = fold (filter_step lib) cs ?m ! r ! c"
    by simp
  also have "\<dots> = (if \<exists>k\<in>set cs. 100 < contourArea k \<and> contourArea k < 3000 \<and>
           polyCover lib k (int c) (int r) then 255 else ?m ! r ! c)"
    by (rule Cons.IH [OF r c])
  finally show ?case
    using Cons.prems by (auto simp: filter_step_nth)
qed

lemma mask_clean_nth:
  assumes "r < length om" "c < length (om ! r)"
  shows "mask_clean lib om ! r ! c =
     (if \<exists>cnt\<in>set (findContours lib om). 100 < contourArea cnt \<and> contourArea cnt < 3000 \<and>
           polyCover lib cnt (int c) (int r)
      then 255 else 0)"
proof -
  have r: "r < length (zeros_like om)" and c: "c < length (zeros_like om ! r)"
    using assms by (simp_all add: zeros_like_def length_array_like length_row_array_like)
  have z: "zeros_like om ! r ! c = 0"
    using assms by (simp add: zeros_like_def nth_array_like)
  show ?thesis
    unfolding mask_clean_def fold_filter_step_nth [OF r c] z ..
qed

lemma contourArea_island12: "contourArea (island_contour 12 12) = 121"
  by code_simp

lemma poly_cover_island12: "poly_cover (island_contour 12 12) 5 5"
  by code_simp










lemma final_mask_value:
  assumes "dims clean = dims img"
  shows "final_mask img clean = Inr (array_like clean (\<lambda>r c. clean ! r ! c AND roi_mask img ! r ! c))"
  using assms by (simp add: final_mask_def bitwise_and_def dims_roi_mask)



lemma two_valued_iff:
  "two_valued m \<longleftrightarrow>
     (\<forall>r c. r < length m \<longrightarrow> c < length (m ! r) \<longrightarrow> m ! r ! c = 0 \<or> m ! r ! c = 255)"
  by (simp add: two_valued_def list_all_length)

lemma two_valued_array_like:
  assumes "\<And>r c. r < length img \<Longrightarrow> c < length (img ! r) \<Longrightarrow> f r c = 0 \<or> f r c = 255"
  shows "two_valued (array_like img f)"
  unfolding two_valued_iff
  using assms by (simp add: length_array_like length_row_array_like nth_array_like)

lemma fold_min_closed:
  "P b \<Longrightarrow> (\<And>x. x \<in> set xs \<Longrightarrow> P x) \<Longrightarrow> P (fold min xs (b::'a::linorder))"
  by (induction xs arbitrary: b) (simp_all add: min_def)

lemma fold_max_closed:
  "P b \<Longrightarrow> (\<And>x. x \<in> set xs \<Longrightarrow> P x) \<Longrightarrow> P (fold max xs (b::'a::linorder))"
  by (induction xs arbitrary: b) (simp_all add: max_def)

lemma neighbours_two_valued:
  assumes tv: "two_valued img" and x: "x \<in> set (neighbours k img b r c)"
    and b: "b = 0 \<or> b = 255"
  shows "x = 0 \<or> x = 255"
proof -
  from neighbours_cases [OF x] show ?thesis
  proof
    assume "x = b" then show ?thesis using b by simp
  next
    assume "\<exists>dr dc. (dr, dc) \<in> set (kernel_offsets k) \<and> px img (int r + dr) (int c + dc) = Some x"
    then obtain dr dc where "px img (int r + dr) (int c + dc) = Some x" by blast
    then have "nat (int r + dr) < length img"
      "nat (int c + dc) < length (img ! nat (int r + dr))"
      "x = img ! nat (int r + dr) ! nat (int c + dc)"
      by (simp_all add: px_Some_iff)
    then show ?thesis using tv by (simp add: two_valued_iff)
  qed
qed

lemma two_valued_erode:
  assumes tv: "two_valued img"
  shows "two_valued (erode k img)"
  unfolding erode_def
proof (rule two_valued_array_like)
  fix r c
  show "fold min (neighbours k img 255 r c) 255 = 0 \<or>
      fold min (neighbours k img 255 r c) 255 = 255"
  proof (rule fold_min_closed [where P = "\<lambda>x. x = 0 \<or> x = 255"])
    show "(255::uint8) = 0 \<or> (255::uint8) = 255" by simp
  next
    fix x assume "x \<in> set (neighbours k img 255 r c)"
    with tv show "x = 0 \<or> x = 255"
      by (rule neighbours_two_valued) simp
  qed
qed

lemma two_valued_dilate:
  assumes tv: "two_valued img"
  shows "two_valued (dilate k img)"
  unfolding dilate_def
proof (rule two_valued_array_like)
  fix r c
  show "fold max (neighbours k img 0 r c) 0 = 0 \<or>
      fold max (neighbours k img 0 r c) 0 = 255"
  proof (rule fold_max_closed [where P = "\<lambda>x. x = 0 \<or> x = 255"])
    show "(0::uint8) = 0 \<or> (0::uint8) = 255" by simp
  next
    fix x assume "x \<in> set (neighbours k img 0 r c)"
    with tv show "x = 0 \<or> x = 255"
      by (rule neighbours_two_valued) simp
  qed
qed

lemma two_valued_funpow_erode: "two_valued img \<Longrightarrow> two_valued ((erode k ^^ n) img)"
  by (induction n) (simp_all add: two_valued_erode)

lemma two_valued_funpow_dilate: "two_valued img \<Longrightarrow> two_valued ((dilate k ^^ n) img)"
  by (induction n) (simp_all add: two_valued_dilate)

lemma two_valued_thresh: "two_valued (thresh lib img)"
  unfolding thresh_def adaptiveThreshold_mean_inv_def
  by (rule two_valued_array_like) simp

lemma two_valued_opened: "two_valued (opened lib img)"
  unfolding opened_def morphologyEx_open_def
  by (intro two_valued_funpow_dilate two_valued_funpow_erode two_valued_thresh)

lemma two_valued_mask_clean: "two_valued (mask_clean lib om)"
  unfolding two_valued_iff
proof (intro allI impI)
  fix r c assume "r < length (mask_clean lib om)" "c < length (mask_clean lib om ! r)"
  then have "r < length om" "c < length (om ! r)"
    using dims_length [OF dims_mask_clean, of lib om] dims_row [OF dims_mask_clean, of r lib om]
    by simp_all
  then show "mask_clean lib om ! r ! c = 0 \<or> mask_clean lib om ! r ! c = 255"
    by (simp add: mask_clean_nth)
qed

lemma two_valued_roi_mask: "two_valued (roi_mask img)"
  unfolding roi_mask_def Let_def rectangle_def
  by (rule two_valued_array_like)
     (simp add: zeros_like_def nth_array_like length_array_like length_row_array_like)

lemma two_valued_and:
  assumes "(a::uint8) = 0 \<or> a = 255" "(b::uint8) = 0 \<or> b = 255"
  shows "a AND b = 0 \<or> a AND b = 255"
  using assms by auto

lemma final_mask_two_valued:
  assumes d: "dims clean = dims img" and tv: "two_valued clean"
  shows "\<exists>m. final_mask img clean = Inr m \<and> two_valued m"
proof -
  have "two_valued (array_like clean (\<lambda>r c. clean ! r ! c AND roi_mask img ! r ! c))"
  proof (rule two_valued_array_like)
    fix r c assume r: "r < length clean" and c: "c < length (clean ! r)"
    have d': "dims clean = dims (roi_mask img)" using d by (simp add: dims_roi_mask)
    have "r < length (roi_mask img)" "c < length (roi_mask img ! r)"
      using r c dims_length [OF d'] dims_row [OF d' r] by simp_all
    then have "roi_mask img ! r ! c = 0 \<or> roi_mask img ! r ! c = 255"
      using two_valued_roi_mask [of img] by (simp add: two_valued_iff)
    moreover have "clean ! r ! c = 0 \<or> clean ! r ! c = 255"
      using tv r c by (simp add: two_valued_iff)
    ultimately show "clean ! r ! c AND roi_mask img ! r ! c = 0 \<or>
        clean ! r ! c AND roi_mask img ! r ! c = 255"
      by (rule two_valued_and [rotated])
  qed
  then show ?thesis by (simp add: final_mask_value [OF d])
qed

lemma dims_pipeline: "dims (mask_clean lib (opened lib img)) = dims img"
  by (simp add: dims_mask_clean dims_opened)

lemma process_image_value:
  assumes "image_auto st = Some img"
  shows "\<exists>final. final_mask img (mask_clean lib (opened lib img)) = Inr final \<and>
     process_image lib st =
       Inr (st\<lparr>mask_auto := Some final,
              canvas_auto := Some (img, final, of_nat (count_nonzero final) * (mm_per_px st)\<^sup>2),
              label_info := DamagedArea (of_nat (count_nonzero final) * (mm_per_px st)\<^sup>2),
              btn_clear_enabled := True, btn_save_enabled := True\<rparr>)"
  using assms final_mask_value [OF dims_pipeline [of lib img]]
  by (simp add: process_image_def Let_def)

lemma all_zero_count:
  "list_all (list_all (\<lambda>v. v = 0)) m \<Longrightarrow> count_nonzero m = 0"
  by (rule count_nonzero_all_zero) (auto simp: list_all_iff)

section \<open>Facts about regions and the example masks\<close>

lemma dims_grid: "dims (grid n P) = replicate n n"
  by (rule nth_equalityI) (simp_all add: dims_def grid_def)

lemma length_grid: "length (grid n P) = n"
  by (simp add: grid_def)

lemma length_row_grid: "r < n \<Longrightarrow> length (grid n P ! r) = n"
  by (simp add: grid_def)

lemma nth_grid: "r < n \<Longrightarrow> c < n \<Longrightarrow> grid n P ! r ! c = (if P (int r) (int c) then 255 else 0)"
  by (simp add: grid_def)

lemma px_grid:
  "px (grid n P) r c =
     (if 0 \<le> r \<and> r < int n \<and> 0 \<le> c \<and> c < int n then Some (if P r c then 255 else 0) else None)"
proof (cases "0 \<le> r \<and> r < int n \<and> 0 \<le> c \<and> c < int n")
  case True
  then have r: "nat r < n" and c: "nat c < n" by auto
  show ?thesis
    using True r c by (simp add: px_def length_grid length_row_grid nth_grid)
next
  case False
  then show ?thesis
    by (auto simp: px_def length_grid length_row_grid)
qed

lemma fg_grid:
  "fg (grid n P) (r, c) \<longleftrightarrow> 0 \<le> r \<and> r < int n \<and> 0 \<le> c \<and> c < int n \<and> P r c"
  by (auto simp: fg_def px_grid)

lemma grid_is_array_like: "grid n P = array_like (grid n P) (\<lambda>r c. if P (int r) (int c) then 255 else 0)"
proof (rule image_eqI)
  show "dims (grid n P) = dims (array_like (grid n P) (\<lambda>r c. if P (int r) (int c) then 255 else 0))"
    by (simp add: dims_array_like)
next
  fix r c assume "r < length (grid n P)" "c < length (grid n P ! r)"
  then have r: "r < n" and c: "c < n" by (simp_all add: length_grid length_row_grid)
  then show "grid n P ! r ! c = array_like (grid n P) (\<lambda>r c. if P (int r) (int c) then 255 else 0) ! r ! c"
    by (simp add: nth_array_like length_grid length_row_grid nth_grid)
qed

lemma le_fold_max_iff:
  "v \<le> fold max xs (b::'a::linorder) \<longleftrightarrow> v \<le> b \<or> (\<exists>x\<in>set xs. v \<le> x)"
  by (induction xs arbitrary: b) (auto simp: le_max_iff_disj)

lemma uint8_255_le: "(255 :: uint8) \<le> v \<longleftrightarrow> v = 255"
  using uint8_le_255 [of v] by auto

lemma dilate_grid:
  assumes inb: "\<And>r c. P r c \<Longrightarrow> 0 \<le> r \<and> r < int n \<and> 0 \<le> c \<and> c < int n"
  shows "dilate k (grid n P) =
     grid n (\<lambda>r c. \<exists>d \<in> set (kernel_offsets k). P (r + fst d) (c + snd d))"
    (is "_ = grid n ?Q")
proof (rule image_eqI)
  show "dims (dilate k (grid n P)) = dims (grid n ?Q)"
    by (simp add: dims_dilate dims_grid)
next
  fix r c assume "r < length (dilate k (grid n P))" "c < length (dilate k (grid n P) ! r)"
  then have r: "r < n" and c: "c < n"
    by (simp_all add: dilate_def length_array_like length_row_array_like length_grid length_row_grid)
  let ?v = "fold max (neighbours k (grid n P) 0 r c) 0"
  have v: "dilate k (grid n P) ! r ! c = ?v"
    using r c by (simp add: dilate_def nth_array_like length_grid length_row_grid)
  have val: "(case px (grid n P) (int r + dr) (int c + dc) of Some v \<Rightarrow> v | None \<Rightarrow> 0) =
      (if P (int r + dr) (int c + dc) then 255 else 0)" for dr dc
    using inb [of "int r + dr" "int c + dc"] by (simp add: px_grid)
  have nbs: "neighbours k (grid n P) 0 r c =
      map (\<lambda>d. if P (int r + fst d) (int c + snd d) then 255 else 0) (kernel_offsets k)"
    by (simp add: neighbours_def val split_def)
  have nb: "x \<in> set (neighbours k (grid n P) 0 r c) \<longleftrightarrow>
      (\<exists>d \<in> set (kernel_offsets k). x = (if P (int r + fst d) (int c + snd d) then 255 else 0))" for x
    unfolding nbs set_map image_iff by blast
  have two: "?v = 0 \<or> ?v = 255"
    by (rule fold_max_closed [where P = "\<lambda>x. x = 0 \<or> x = 255"]) (auto simp: nb)
  have top: "?v = 255 \<longleftrightarrow> ?Q (int r) (int c)"
  proof -
    have "?v = 255 \<longleftrightarrow> 255 \<le> ?v" by (simp add: uint8_255_le)
    also have "\<dots> \<longleftrightarrow> (\<exists>x \<in> set (neighbours k (grid n P) 0 r c). 255 \<le> x)"
      by (simp add: le_fold_max_iff uint8_255_le)
    also have "\<dots> \<longleftrightarrow> ?Q (int r) (int c)"
      by (auto simp: nb uint8_255_le)
    finally show ?thesis .
  qed
  show "dilate k (grid n P) ! r ! c = grid n ?Q ! r ! c"
    using two top r c by (auto simp: v nth_grid)
qed

lemma cross_step:
  assumes "d \<in> set (kernel_offsets getStructuringElement_ellipse_3x3)"
  shows "\<bar>dist1 (r + fst d) (c + snd d) - dist1 r c\<bar> \<le> 1"
  using assms by (auto simp: kernel_offsets_ellipse dist1_def)

lemma cross_stay: "\<exists>d \<in> set (kernel_offsets getStructuringElement_ellipse_3x3).
    dist1 (r + fst d) (c + snd d) = dist1 r c"
  by (rule bexI [of _ "(0, 0)"]) (simp_all add: kernel_offsets_ellipse)

lemma cross_toward:
  assumes "1 \<le> dist1 r c"
  shows "\<exists>d \<in> set (kernel_offsets getStructuringElement_ellipse_3x3).
    dist1 (r + fst d) (c + snd d) = dist1 r c - 1"
proof -
  consider "r < 42" | "42 < r" | "r = 42" "c < 42" | "r = 42" "42 < c"
    using assms unfolding dist1_def by atomize_elim arith
  then show ?thesis
  proof cases
    case 1 then show ?thesis
      by (intro bexI [of _ "(1, 0)"]) (simp_all add: kernel_offsets_ellipse dist1_def)
  next
    case 2 then show ?thesis
      by (intro bexI [of _ "(- 1, 0)"]) (simp_all add: kernel_offsets_ellipse dist1_def)
  next
    case 3 then show ?thesis
      by (intro bexI [of _ "(0, 1)"]) (simp_all add: kernel_offsets_ellipse dist1_def)
  next
    case 4 then show ?thesis
      by (intro bexI [of _ "(0, - 1)"]) (simp_all add: kernel_offsets_ellipse dist1_def)
  qed
qed

lemma cross_away:
  "\<exists>d \<in> set (kernel_offsets getStructuringElement_ellipse_3x3).
    dist1 (r + fst d) (c + snd d) = dist1 r c + 1"
proof (cases "42 \<le> r")
  case True then show ?thesis
    by (intro bexI [of _ "(1, 0)"]) (simp_all add: kernel_offsets_ellipse dist1_def)
next
  case False then show ?thesis
    by (intro bexI [of _ "(- 1, 0)"]) (simp_all add: kernel_offsets_ellipse dist1_def)
qed

lemma dist1_nonneg: "0 \<le> dist1 r c"
  by (simp add: dist1_def)

lemma band_dilated:
  assumes "0 \<le> lo" "1 \<le> a" "a \<le> b"
  shows "(\<exists>d \<in> set (kernel_offsets getStructuringElement_ellipse_3x3).
            band lo a b (r + fst d) (c + snd d)) \<longleftrightarrow> band (lo + 1) (a - 1) (b + 1) r c"
proof
  assume "\<exists>d \<in> set (kernel_offsets getStructuringElement_ellipse_3x3).
            band lo a b (r + fst d) (c + snd d)"
  then obtain d where d: "d \<in> set (kernel_offsets getStructuringElement_ellipse_3x3)"
    and b: "band lo a b (r + fst d) (c + snd d)" by blast
  from cross_step [OF d, of r c] b show "band (lo + 1) (a - 1) (b + 1) r c"
    by (auto simp: band_def)
next
  assume h: "band (lo + 1) (a - 1) (b + 1) r c"
  let ?k = "dist1 r c"
  consider "?k \<le> lo" | "?k = lo + 1" | "?k = a - 1" | "a \<le> ?k" "?k \<le> b" | "?k = b + 1"
    using h unfolding band_def by atomize_elim arith
  then show "\<exists>d \<in> set (kernel_offsets getStructuringElement_ellipse_3x3).
            band lo a b (r + fst d) (c + snd d)"
  proof cases
    case 1
    obtain d where d: "d \<in> set (kernel_offsets getStructuringElement_ellipse_3x3)"
      and e: "dist1 (r + fst d) (c + snd d) = ?k"
      using cross_stay [of r c] by blast
    have "band lo a b (r + fst d) (c + snd d)" using 1 e by (simp add: band_def)
    with d show ?thesis by blast
  next
    case 2
    then have "1 \<le> ?k" using assms(1) by simp
    from cross_toward [OF this]
    obtain d where d: "d \<in> set (kernel_offsets getStructuringElement_ellipse_3x3)"
      and e: "dist1 (r + fst d) (c + snd d) = ?k - 1"
      by blast
    have "band lo a b (r + fst d) (c + snd d)" using 2 e by (simp add: band_def)
    with d show ?thesis by blast
  next
    case 3
    obtain d where d: "d \<in> set (kernel_offsets getStructuringElement_ellipse_3x3)"
      and e: "dist1 (r + fst d) (c + snd d) = ?k + 1"
      using cross_away [of r c] by blast
    have "band lo a b (r + fst d) (c + snd d)" using 3 e assms by (simp add: band_def)
    with d show ?thesis by blast
  next
    case 4
    obtain d where d: "d \<in> set (kernel_offsets getStructuringElement_ellipse_3x3)"
      and e: "dist1 (r + fst d) (c + snd d) = ?k"
      using cross_stay [of r c] by blast
    have "band lo a b (r + fst d) (c + snd d)" using 4 e by (simp add: band_def)
    with d show ?thesis by blast
  next
    case 5
    then have "1 \<le> ?k" using assms by simp
    from cross_toward [OF this]
    obtain d where d: "d \<in> set (kernel_offsets getStructuringElement_ellipse_3x3)"
      and e: "dist1 (r + fst d) (c + snd d) = ?k - 1"
      by blast
    have "band lo a b (r + fst d) (c + snd d)" using 5 e assms by (simp add: band_def)
    with d show ?thesis by blast
  qed
qed

lemma band_inside:
  assumes "band lo a b r c" "lo \<le> 42" "b \<le> 42"
  shows "0 \<le> r \<and> r < int 85 \<and> 0 \<le> c \<and> c < int 85"
  using assms by (auto simp: band_def dist1_def)

lemma dilate_band:
  assumes "0 \<le> lo" "1 \<le> a" "a \<le> b" "lo \<le> 42" "b \<le> 42"
  shows "dilate getStructuringElement_ellipse_3x3 (grid 85 (band lo a b))
       = grid 85 (band (lo + 1) (a - 1) (b + 1))"
proof -
  have "dilate getStructuringElement_ellipse_3x3 (grid 85 (band lo a b))
      = grid 85 (\<lambda>r c. \<exists>d \<in> set (kernel_offsets getStructuringElement_ellipse_3x3).
            band lo a b (r + fst d) (c + snd d))"
    by (rule dilate_grid) (rule band_inside [OF _ assms(4,5)])
  also have "\<dots> = grid 85 (band (lo + 1) (a - 1) (b + 1))"
    by (simp only: band_dilated [OF assms(1,2,3)])
  finally show ?thesis .
qed

lemma diamonds_cell_band: "diamonds_cell = band 8 35 39"
  by (intro ext) (simp add: diamonds_cell_def band_def)

lemma diamonds_seed_band: "diamonds_seed = band 6 37 37"
  by (intro ext) (auto simp: diamonds_seed_def band_def)

lemma diamonds_mask_dilated:
  "diamonds_mask = (dilate getStructuringElement_ellipse_3x3 ^^ 2) (grid 85 diamonds_seed)"
proof -
  have "dilate getStructuringElement_ellipse_3x3 (grid 85 (band 6 37 37)) = grid 85 (band 7 36 38)"
    using dilate_band [of 6 37 37] by simp
  moreover have "dilate getStructuringElement_ellipse_3x3 (grid 85 (band 7 36 38)) = grid 85 (band 8 35 39)"
    using dilate_band [of 7 36 38] by simp
  ultimately show ?thesis
    by (simp add: diamonds_mask_def diamonds_cell_band diamonds_seed_band numeral_2_eq_2)
qed

lemma funpow_dilate_mono:
  assumes sym: "symmetric_kernel k" and le: "img_le a b"
  shows "img_le ((dilate k ^^ n) a) ((dilate k ^^ n) b)"
proof -
  have "img_le b ((erode k ^^ n) ((dilate k ^^ n) b))"
    by (rule closing_above [OF sym])
  with le have "img_le a ((erode k ^^ n) ((dilate k ^^ n) b))"
    by (rule img_le_trans)
  moreover have "dims a = dims ((dilate k ^^ n) b)"
    using le by (simp add: dims_funpow_dilate img_le_dims)
  ultimately show ?thesis
    using funpow_adjoint [OF sym] by blast
qed

lemma opening_of_dilated:
  assumes sym: "symmetric_kernel k"
  shows "morphologyEx_open ((dilate k ^^ n) y) k n = (dilate k ^^ n) y"
proof (rule img_le_antisym)
  show "img_le (morphologyEx_open ((dilate k ^^ n) y) k n) ((dilate k ^^ n) y)"
    by (rule opening_below [OF sym])
next
  have "img_le y ((erode k ^^ n) ((dilate k ^^ n) y))"
    by (rule closing_above [OF sym])
  then show "img_le ((dilate k ^^ n) y) (morphologyEx_open ((dilate k ^^ n) y) k n)"
    unfolding morphologyEx_open_def by (rule funpow_dilate_mono [OF sym])
qed

lemma diamonds_mask_cleaned:
  "morphologyEx_open diamonds_mask getStructuringElement_ellipse_3x3 2 = diamonds_mask"
  unfolding diamonds_mask_dilated by (rule opening_of_dilated [OF symmetric_ellipse])

lemma fg_diamonds: "fg diamonds_mask (r, c) \<longleftrightarrow> diamonds_cell r c"
  unfolding diamonds_mask_def fg_grid
  by (auto simp: diamonds_cell_def dist1_def)

lemma inner_diamond_closed:
  assumes "(p, q) \<in> (fg_step diamonds_mask)\<^sup>*" "p \<in> inner_diamond"
  shows "q \<in> inner_diamond"
  using assms
proof (induction rule: rtrancl_induct)
  case base
  then show ?case by simp
next
  case (step y z)
  then have y: "dist1 (fst y) (snd y) \<le> 8" by (simp add: inner_diamond_def)
  from step.hyps(2) have z: "diamonds_cell (fst z) (snd z)"
    and a: "\<bar>fst y - fst z\<bar> \<le> 1" "\<bar>snd y - snd z\<bar> \<le> 1"
    using fg_diamonds [of "fst z" "snd z"] by (simp_all add: fg_step_def adjacent8_def)
  have "dist1 (fst z) (snd z) \<le> dist1 (fst y) (snd y) + 2"
    using a unfolding dist1_def by linarith
  with y z show ?case
    by (simp add: inner_diamond_def diamonds_cell_def)
qed

lemma inner_step:
  assumes "dist1 r c \<le> 8" "dist1 r' c' \<le> 8" "\<bar>r - r'\<bar> + \<bar>c - c'\<bar> = 1"
  shows "((r, c), (r', c')) \<in> fg_step diamonds_mask"
proof -
  have "(r, c) \<noteq> (r', c')" using assms(3) by auto
  moreover have "\<bar>r - r'\<bar> \<le> 1" "\<bar>c - c'\<bar> \<le> 1" using assms(3) by linarith+
  ultimately show ?thesis
    using assms(1,2) by (simp add: fg_step_def fg_diamonds diamonds_cell_def adjacent8_def)
qed

lemma walk_row:
  assumes "n \<le> 8"
  shows "((42, 42), (42, 42 + int n)) \<in> (fg_step diamonds_mask)\<^sup>*"
    and "((42, 42), (42, 42 - int n)) \<in> (fg_step diamonds_mask)\<^sup>*"
  using assms
proof (induction n)
  case 0
  { case 1 show ?case by simp }
  { case 2 show ?case by simp }
next
  case (Suc n)
  { case 1
    then have "((42, 42), (42, 42 + int n)) \<in> (fg_step diamonds_mask)\<^sup>*"
      using Suc.IH(1) by simp
    moreover have "((42, 42 + int n), (42, 42 + int (Suc n))) \<in> fg_step diamonds_mask"
      using 1 by (intro inner_step) (simp_all add: dist1_def)
    ultimately show ?case by (rule rtrancl_into_rtrancl) }
  { case 2
    then have "((42, 42), (42, 42 - int n)) \<in> (fg_step diamonds_mask)\<^sup>*"
      using Suc.IH(2) by simp
    moreover have "((42, 42 - int n), (42, 42 - int (Suc n))) \<in> fg_step diamonds_mask"
      using 2 by (intro inner_step) (simp_all add: dist1_def)
    ultimately show ?case by (rule rtrancl_into_rtrancl) }
qed

lemma walk_column:
  assumes "int n + \<bar>c - 42\<bar> \<le> 8"
  shows "((42, c), (42 + int n, c)) \<in> (fg_step diamonds_mask)\<^sup>*"
    and "((42, c), (42 - int n, c)) \<in> (fg_step diamonds_mask)\<^sup>*"
  using assms
proof (induction n)
  case 0
  { case 1 show ?case by simp }
  { case 2 show ?case by simp }
next
  case (Suc n)
  { case 1
    then have "((42, c), (42 + int n, c)) \<in> (fg_step diamonds_mask)\<^sup>*"
      using Suc.IH(1) by simp
    moreover have "((42 + int n, c), (42 + int (Suc n), c)) \<in> fg_step diamonds_mask"
      using 1 by (intro inner_step) (simp_all add: dist1_def)
    ultimately show ?case by (rule rtrancl_into_rtrancl) }
  { case 2
    then have "((42, c), (42 - int n, c)) \<in> (fg_step diamonds_mask)\<^sup>*"
      using Suc.IH(2) by simp
    moreover have "((42 - int n, c), (42 - int (Suc n), c)) \<in> fg_step diamonds_mask"
      using 2 by (intro inner_step) (simp_all add: dist1_def)
    ultimately show ?case by (rule rtrancl_into_rtrancl) }
qed

lemma inner_diamond_reached:
  assumes "q \<in> inner_diamond"
  shows "((42, 42), q) \<in> (fg_step diamonds_mask)\<^sup>*"
proof -
  obtain r c where q: "q = (r, c)" by (cases q)
  with assms have d: "\<bar>r - 42\<bar> + \<bar>c - 42\<bar> \<le> 8"
    by (simp add: inner_diamond_def dist1_def)
  define m where "m = nat \<bar>c - 42\<bar>"
  define n where "n = nat \<bar>r - 42\<bar>"
  have m: "m \<le> 8" "c = 42 + int m \<or> c = 42 - int m"
    using d by (auto simp: m_def)
  have n: "int n + \<bar>c - 42\<bar> \<le> 8" "r = 42 + int n \<or> r = 42 - int n"
    using d by (auto simp: n_def)
  have "((42, 42), (42, c)) \<in> (fg_step diamonds_mask)\<^sup>*"
    using walk_row [OF m(1)] m(2) by auto
  moreover have "((42, c), (r, c)) \<in> (fg_step diamonds_mask)\<^sup>*"
    using walk_column [OF n(1)] n(2) by auto
  ultimately show ?thesis unfolding q by (rule rtrancl_trans)
qed

lemma inner_diamond_is_region: "spec_region diamonds_mask inner_diamond"
  unfolding spec_region_def
proof (intro exI conjI)
  show "fg diamonds_mask (42, 42)" by (simp add: fg_diamonds diamonds_cell_def dist1_def)
next
  show "inner_diamond = {q. ((42, 42), q) \<in> (fg_step diamonds_mask)\<^sup>*}"
  proof (intro equalityI subsetI)
    fix q assume "q \<in> inner_diamond"
    then show "q \<in> {q. ((42, 42), q) \<in> (fg_step diamonds_mask)\<^sup>*}"
      by (simp add: inner_diamond_reached)
  next
    fix q assume "q \<in> {q. ((42, 42), q) \<in> (fg_step diamonds_mask)\<^sup>*}"
    then have "((42, 42), q) \<in> (fg_step diamonds_mask)\<^sup>*" by simp
    moreover have "(42, 42) \<in> inner_diamond" by (simp add: inner_diamond_def dist1_def)
    ultimately show "q \<in> inner_diamond" by (rule inner_diamond_closed)
  qed
qed

lemma contourArea_diamond8: "contourArea (diamond_contour 8) = 128"
  by (simp add: contourArea_def green_sum_def diamond_contour_def)

lemma contourArea_diamond39: "contourArea (diamond_contour 39) = 3042"
  by (simp add: contourArea_def green_sum_def diamond_contour_def)

lemma array_like_self: "array_like img (\<lambda>r c. img ! r ! c) = img"
  by (rule image_eqI [symmetric]) (simp_all add: dims_array_like nth_array_like)

lemma thresh_diamonds: "thresh (example_cv cs) diamonds_image = diamonds_mask"
proof -
  have blur: "blur (example_cv cs) diamonds_image = diamonds_image"
    by (simp add: blur_def bilateralFilter_def example_cv_def array_like_self)
  show ?thesis
    unfolding thresh_def blur adaptiveThreshold_mean_inv_def
  proof (rule image_eqI)
    show "dims (array_like diamonds_image
        (\<lambda>r c. if uint (diamonds_image ! r ! c) \<le> local_mean (example_cv cs) diamonds_image 35 r c - 5
               then 255 else 0)) = dims diamonds_mask"
      by (simp add: dims_array_like diamonds_image_def diamonds_mask_def dims_grid)
  next
    fix r c
    assume "r < length (array_like diamonds_image
        (\<lambda>r c. if uint (diamonds_image ! r ! c) \<le> local_mean (example_cv cs) diamonds_image 35 r c - 5
               then 255 else 0))"
      and "c < length (array_like diamonds_image
        (\<lambda>r c. if uint (diamonds_image ! r ! c) \<le> local_mean (example_cv cs) diamonds_image 35 r c - 5
               then 255 else 0) ! r)"
    then have r: "r < 85" and c: "c < 85"
      by (simp_all add: length_array_like length_row_array_like diamonds_image_def length_grid
          length_row_grid)
    then show "array_like diamonds_image
        (\<lambda>r c. if uint (diamonds_image ! r ! c) \<le> local_mean (example_cv cs) diamonds_image 35 r c - 5
               then 255 else 0) ! r ! c = diamonds_mask ! r ! c"
      by (simp add: nth_array_like diamonds_image_def diamonds_mask_def length_grid length_row_grid
          nth_grid example_cv_def)
  qed
qed

lemma opened_diamonds: "opened (example_cv cs) diamonds_image = diamonds_mask"
  by (simp add: opened_def thresh_diamonds diamonds_mask_cleaned)

lemma inner_diamond_finite_form:
  "inner_diamond = Set.filter (\<lambda>p. dist1 (fst p) (snd p) \<le> 8) ({34..50} \<times> {34..50})"
  by (auto simp: inner_diamond_def dist1_def)

lemma card_filtered: "card (Set.filter (\<lambda>p. dist1 (fst p) (snd p) \<le> 8) ({34..50} \<times> {34..50})) = 145"
  by code_simp

lemma card_inner_diamond: "card inner_diamond = 145"
  by (simp only: inner_diamond_finite_form card_filtered)

section \<open>The claims\<close>

text \<open>
  C6.  The Morphological Cleaner is idempotent: the opening of step 3 (the 3 x 3 ellipse
  kernel, 2 iterations) applied to its own output, with the same parameters, returns
  that output unchanged, for every mask; under either reading of the iteration count
  (2 erosions then 2 dilations, as \<open>cv2.morphologyEx\<close> does, or the pair twice over).
\<close>

theorem morphological_cleaner_idempotent:
  "morphologyEx_open (morphologyEx_open m getStructuringElement_ellipse_3x3 2)
       getStructuringElement_ellipse_3x3 2
     = morphologyEx_open m getStructuringElement_ellipse_3x3 2 \<and>
   opening_repeated (opening_repeated m getStructuringElement_ellipse_3x3 2)
       getStructuringElement_ellipse_3x3 2
     = opening_repeated m getStructuringElement_ellipse_3x3 2"
proof
  show "morphologyEx_open (morphologyEx_open m getStructuringElement_ellipse_3x3 2)
       getStructuringElement_ellipse_3x3 2
     = morphologyEx_open m getStructuringElement_ellipse_3x3 2"
    by (rule opening_idempotent [OF symmetric_ellipse])
next
  show "opening_repeated (opening_repeated m getStructuringElement_ellipse_3x3 2)
       getStructuringElement_ellipse_3x3 2
     = opening_repeated m getStructuringElement_ellipse_3x3 2"
    by (simp add: opening_repeated_def numeral_2_eq_2
        single_opening_idempotent [OF symmetric_ellipse])
qed

text \<open>
  C8, as amended.  \<open>clear_points\<close> empties the point sequence and resets the label in
  every state, and leaves the drawing flag as it was.  Invoked when no trace is in
  progress, no later motion, release, load or clear appends a point: the sequence stays
  empty until a press.  Invoked while a trace is in progress, the trace goes on: the
  next motion inside the axes appends its point to the emptied sequence.  (The claim as
  stated fails: the counterexample below.)
\<close>

theorem clear_points_resets_points:
  "points (clear_points st) = [] \<and> area_label (clear_points st) = DrawLesionPrompt \<and>
   drawing (clear_points st) = drawing st \<and>
   (\<not> drawing st \<and> \<not> list_ex is_press es \<longrightarrow>
      (\<exists>st'. run lib (clear_points st) es = Inr st' \<and> points st' = [] \<and> \<not> drawing st')) \<and>
   (drawing st \<and> inaxes ev \<longrightarrow>
      points (on_motion (clear_points st) ev) = [(xdata ev, ydata ev)] \<and>
      drawing (on_motion (clear_points st) ev))"
proof -
  have a: "points (clear_points st) = []" "area_label (clear_points st) = DrawLesionPrompt"
    "drawing (clear_points st) = drawing st"
    by (simp_all add: clear_points_def show_image_def)
  have b: "drawing st \<and> inaxes ev \<longrightarrow>
      points (on_motion (clear_points st) ev) = [(xdata ev, ydata ev)] \<and>
      drawing (on_motion (clear_points st) ev)"
    by (simp add: on_motion_def clear_points_def show_image_def)
  show ?thesis
    using a b idle_stays_empty [of "clear_points st" es lib] by auto
qed

theorem clear_points_resets_points_witness:
  "\<exists>st'. run (example_cv []) (clear_points (init_manual\<lparr>points := [(1, 1)]\<rparr>))
           [Motion \<lparr>inaxes = True, xdata = 2, ydata = 3\<rparr>,
            Release \<lparr>inaxes = True, xdata = 2, ydata = 3\<rparr>] = Inr st' \<and>
         points st' = [] \<and> \<not> drawing st'"
  using clear_points_resets_points [of "init_manual\<lparr>points := [(1, 1)]\<rparr>"
      "[Motion \<lparr>inaxes = True, xdata = 2, ydata = 3\<rparr>,
        Release \<lparr>inaxes = True, xdata = 2, ydata = 3\<rparr>]" "example_cv []"]
  by (simp add: init_manual_def)

text \<open>
  The claim of C8 as stated is false: cleared while a trace is in progress, the
  application keeps tracing, and the next motion appends a point with no new press.
\<close>

theorem clear_while_tracing_counterexample:
  "drawing (clear_points (init_manual\<lparr>image_manual := Some [[0]], drawing := True,
       points := [(1, 1)]\<rparr>)) \<and>
   points (on_motion (clear_points (init_manual\<lparr>image_manual := Some [[0]], drawing := True,
       points := [(1, 1)]\<rparr>)) \<lparr>inaxes = True, xdata = 2, ydata = 3\<rparr>) = [(2, 3)]"
  by (simp add: clear_points_def show_image_def on_motion_def init_manual_def)

text \<open>
  C7, at the failing input.  A file that does not decode: the manual variant stores
  \<open>None\<close> over the image it held, clears the picture and reports nothing (its label is
  unchanged), whereas the automatic variant keeps its image and mask and shows the
  failure message.
\<close>

theorem failed_decode_manual_drops_image:
  "load_image_manual (example_cv [])
       (init_manual\<lparr>image_manual := Some [[7]], area_label := LesionArea 1,
          canvas_manual := (Some [[7]], [])\<rparr>) ''scan.png''
     = init_manual\<lparr>image_manual := None, area_label := LesionArea 1,
          canvas_manual := (None, [])\<rparr> \<and>
   load_image_auto (example_cv [])
       (init_auto\<lparr>image_auto := Some [[7]], mask_auto := Some [[0]],
          label_info := DamagedArea 0\<rparr>) ''scan.png''
     = Inr (init_auto\<lparr>image_auto := Some [[7]], mask_auto := Some [[0]],
          label_info := LoadFailed\<rparr>)"
  by (simp add: load_image_manual_def load_image_auto_def show_image_def example_cv_def
      init_manual_def init_auto_def)



text \<open>
  C10.  The manual area depends on the traced coordinates only through their cut to
  integers: two traces of at least 3 points with the same integer coordinates, on images
  of the same shape and with the same pixel spacing, give the same filled mask, the same
  pixel sum and the same area in the label.
\<close>

theorem manual_area_through_truncation:
  assumes "to_int32 (points st) = to_int32 (points st')"
    and "3 \<le> length (points st)"
    and "image_manual st = Some img" and "image_manual st' = Some img'"
    and "shape img = shape img'"
    and "pixel_spacing_mm st = pixel_spacing_mm st'"
  shows "polygon_mask lib (shape img) (points st) = polygon_mask lib (shape img') (points st') \<and>
         np_sum (polygon_mask lib (shape img) (points st))
           = np_sum (polygon_mask lib (shape img') (points st')) \<and>
         (\<exists>a s s'. calculate_area lib st = Inr s \<and> calculate_area lib st' = Inr s' \<and>
            area_label s = LesionArea a \<and> area_label s' = LesionArea a)"
proof -
  have "length (to_int32 (points st)) = length (to_int32 (points st'))"
    using assms(1) by simp
  then have len: "3 \<le> length (points st')"
    using assms(2) by (simp add: to_int32_def)
  have m: "polygon_mask lib (shape img) (points st) = polygon_mask lib (shape img') (points st')"
    using assms(1,5) by (simp add: polygon_mask_def)
  show ?thesis
    using m assms(2,3,4,6) len
    by (simp add: calculate_area_def Let_def show_image_def)
qed

theorem manual_area_through_truncation_witness:
  "polygon_mask (example_cv []) (2, 2) [(0.2, 0.7), (1.5, 0.1), (1.25, 1.4)]
     = polygon_mask (example_cv []) (2, 2) [(0.9, 0.1), (1.1, 0.9), (1.0, 1.99)]"
proof -
  have t: "to_int32 [(0.2, 0.7), (1.5, 0.1), (1.25, 1.4)]
         = to_int32 [(0.9, 0.1), (1.1, 0.9), (1.0, 1.99)]"
    by code_simp
  have s: "shape [[0, 0], [0, 0]] = (2, 2)" "shape [[9, 9], [9, 9]] = (2, 2)"
    by (simp_all add: shape_def)
  show ?thesis
    using t s manual_area_through_truncation [of
      "init_manual\<lparr>image_manual := Some [[0, 0], [0, 0]],
          points := [(0.2, 0.7), (1.5, 0.1), (1.25, 1.4)]\<rparr>"
      "init_manual\<lparr>image_manual := Some [[9, 9], [9, 9]],
          points := [(0.9, 0.1), (1.1, 0.9), (1.0, 1.99)]\<rparr>"
      "[[0, 0], [0, 0]]" "[[9, 9], [9, 9]]" "example_cv []"]
    by (simp add: init_manual_def)
qed

text \<open>
  C1, as amended.  The mask built by step 4 has the size of the opened mask, and a cell
  of it is foreground (255) exactly when it is covered by the filled interior of one of
  the contours that \<open>cv2.findContours\<close> returns for the opened mask (with
  \<open>RETR_EXTERNAL\<close>: the outer boundaries of the regions not nested in another's hole)
  whose measured area (\<open>cv2.contourArea\<close>) lies strictly between 100 and 3000; every
  other cell is 0.  A returned contour whose area is at most 100 or at least 3000, the
  bounds themselves included, is dropped entirely: its iteration leaves the mask as it
  was.  A region with no contour of its own is foreground only where the fill of an
  in-band returned contour covers it.  (The claim as stated, over all maximal connected
  components, fails: the counterexample below.)
\<close>

theorem region_filter_band:
  "dims (mask_clean lib om) = dims om \<and>
   (\<forall>r c. r < length om \<longrightarrow> c < length (om ! r) \<longrightarrow>
      mask_clean lib om ! r ! c =
        (if \<exists>cnt\<in>set (findContours lib om). 100 < contourArea cnt \<and> contourArea cnt < 3000 \<and>
              polyCover lib cnt (int c) (int r)
         then 255 else 0)) \<and>
   (\<forall>cnt m. contourArea cnt \<le> 100 \<or> 3000 \<le> contourArea cnt \<longrightarrow> filter_step lib cnt m = m)"
  by (auto simp: dims_mask_clean mask_clean_nth filter_step_def)

theorem region_filter_band_witness:
  "mask_clean (example_cv [island_contour 12 12]) (island 12 12) ! 5 ! 5 = 255"
proof -
  have "mask_clean (example_cv [island_contour 12 12]) (island 12 12) ! 5 ! 5 =
      (if \<exists>cnt\<in>set (findContours (example_cv [island_contour 12 12]) (island 12 12)).
            100 < contourArea cnt \<and> contourArea cnt < 3000 \<and>
            polyCover (example_cv [island_contour 12 12]) cnt (int 5) (int 5)
       then 255 else 0)"
    using region_filter_band [of "example_cv [island_contour 12 12]" "island 12 12"]
    by (simp add: island_def nth_Cons' nth_append)
  then show ?thesis
    by (simp add: example_cv_def contourArea_island12 poly_cover_island12)
qed

text \<open>
  The claim of C1 as stated is false.  The example image is thresholded and opened to
  \<open>diamonds_mask\<close>, a cleaned mask.  Its inner diamond is a maximal 8-connected
  foreground component of 145 pixels whose boundary has contour area 128, both strictly
  inside the band.  Yet the only contour found is the ring's (area 3042), which is
  dropped, and the output mask is all background: the cell in row 42, column 42 is 255
  in the cleaned mask and 0 in the output.
\<close>

theorem nested_region_dropped_counterexample:
  "opened (example_cv [diamond_contour 39]) diamonds_image = diamonds_mask \<and>
   spec_region diamonds_mask inner_diamond \<and>
   card inner_diamond = 145 \<and> contourArea (diamond_contour 8) = 128 \<and>
   contourArea (diamond_contour 39) = 3042 \<and>
   mask_clean (example_cv [diamond_contour 39])
       (opened (example_cv [diamond_contour 39]) diamonds_image) = zeros_like diamonds_mask \<and>
   diamonds_mask ! 42 ! 42 = 255 \<and> zeros_like diamonds_mask ! 42 ! 42 = 0"
proof -
  have m: "mask_clean (example_cv [diamond_contour 39]) diamonds_mask = zeros_like diamonds_mask"
    by (simp add: mask_clean_def filter_step_def example_cv_def contourArea_diamond39)
  have z: "zeros_like diamonds_mask ! 42 ! 42 = 0"
    by (simp add: zeros_like_def nth_array_like diamonds_mask_def length_grid length_row_grid)
  have n: "diamonds_mask ! 42 ! 42 = 255"
    by (simp add: diamonds_mask_def nth_grid diamonds_cell_def dist1_def)
  show ?thesis
    by (simp only: m z n opened_diamonds inner_diamond_is_region card_inner_diamond
        contourArea_diamond8 contourArea_diamond39 simp_thms)
qed







text \<open>
  C9.  Every mask of the automatic pipeline is two-valued, each cell 0 or 255: the
  thresholded mask, the opened mask, the region-filtered mask, and the final mask (which
  step 5 always produces, without error).
\<close>

theorem pipeline_masks_two_valued:
  "two_valued (thresh lib img) \<and> two_valued (opened lib img) \<and>
   two_valued (mask_clean lib (opened lib img)) \<and>
   (\<exists>m. final_mask img (mask_clean lib (opened lib img)) = Inr m \<and> two_valued m)"
  by (intro conjI two_valued_thresh two_valued_opened two_valued_mask_clean
      final_mask_two_valued dims_pipeline)

text \<open>
  C4.  The reported area is the foreground pixel count times the square of the
  calibration factor, whatever the factor: in the automatic pipeline, which succeeds on
  every loaded image, for the final mask it stores (an all-background final mask gives
  count 0 and area 0); and in the manual mode, for the filled polygon mask of a trace of
  at least 3 points.  The factors the two programs start with, and never change, are
  0.01172 and 0.006.
\<close>

theorem area_is_count_times_square:
  "(image_auto st = Some img \<longrightarrow>
      (\<exists>final st'. process_image lib st = Inr st' \<and> mask_auto st' = Some final \<and>
         mm_per_px st' = mm_per_px st \<and>
         label_info st' = DamagedArea (of_nat (count_nonzero final) * (mm_per_px st)\<^sup>2) \<and>
         (list_all (list_all (\<lambda>v. v = 0)) final \<longrightarrow>
            count_nonzero final = 0 \<and> label_info st' = DamagedArea 0))) \<and>
   (3 \<le> length (points ms) \<and> image_manual ms = Some mimg \<longrightarrow>
      (\<exists>ms'. calculate_area lib ms = Inr ms' \<and>
         pixel_spacing_mm ms' = pixel_spacing_mm ms \<and>
         area_label ms' = LesionArea
           (of_nat (count_nonzero (polygon_mask lib (shape mimg) (points ms))) *
              (pixel_spacing_mm ms)\<^sup>2))) \<and>
   mm_per_px init_auto = 0.01172 \<and> pixel_spacing_mm init_manual = 0.006"
proof (intro conjI impI)
  assume a: "image_auto st = Some img"
  from process_image_value [OF a, of lib] obtain final where
    p: "process_image lib st =
       Inr (st\<lparr>mask_auto := Some final,
              canvas_auto := Some (img, final, of_nat (count_nonzero final) * (mm_per_px st)\<^sup>2),
              label_info := DamagedArea (of_nat (count_nonzero final) * (mm_per_px st)\<^sup>2),
              btn_clear_enabled := True, btn_save_enabled := True\<rparr>)"
    by blast
  show "\<exists>final st'. process_image lib st = Inr st' \<and> mask_auto st' = Some final \<and>
         mm_per_px st' = mm_per_px st \<and>
         label_info st' = DamagedArea (of_nat (count_nonzero final) * (mm_per_px st)\<^sup>2) \<and>
         (list_all (list_all (\<lambda>v. v = 0)) final \<longrightarrow>
            count_nonzero final = 0 \<and> label_info st' = DamagedArea 0)"
    by (rule exI [of _ final], rule exI, rule conjI, rule p) (simp add: all_zero_count)
next
  assume m: "3 \<le> length (points ms) \<and> image_manual ms = Some mimg"
  then show "\<exists>ms'. calculate_area lib ms = Inr ms' \<and>
         pixel_spacing_mm ms' = pixel_spacing_mm ms \<and>
         area_label ms' = LesionArea
           (of_nat (count_nonzero (polygon_mask lib (shape mimg) (points ms))) *
              (pixel_spacing_mm ms)\<^sup>2)"
    by (simp add: calculate_area_value show_image_def)
next
  show "mm_per_px init_auto = 0.01172" by (simp add: init_auto_def)
next
  show "pixel_spacing_mm init_manual = 0.006" by (simp add: init_manual_def)
qed

theorem area_is_count_times_square_witness:
  "(\<exists>final st'. process_image (example_cv []) (init_auto\<lparr>image_auto := Some [[0, 0], [0, 0]]\<rparr>) = Inr st' \<and>
       mask_auto st' = Some final \<and>
       label_info st' = DamagedArea (of_nat (count_nonzero final) * 0.01172\<^sup>2)) \<and>
   (\<exists>ms'. calculate_area (example_cv [])
       (init_manual\<lparr>image_manual := Some [[0, 0], [0, 0]],
          points := [(0.2, 0.7), (1.5, 0.1), (1.25, 1.4)]\<rparr>) = Inr ms' \<and>
     area_label ms' = LesionArea
       (of_nat (count_nonzero (polygon_mask (example_cv []) (2, 2)
          [(0.2, 0.7), (1.5, 0.1), (1.25, 1.4)])) * 0.006\<^sup>2))"
proof -
  have s: "shape [[0, 0], [0, 0]] = (2, 2)" by (simp add: shape_def)
  show ?thesis
    using area_is_count_times_square [of "init_auto\<lparr>image_auto := Some [[0, 0], [0, 0]]\<rparr>"
        "[[0, 0], [0, 0]]" "example_cv []"
        "init_manual\<lparr>image_manual := Some [[0, 0], [0, 0]],
          points := [(0.2, 0.7), (1.5, 0.1), (1.25, 1.4)]\<rparr>" "[[0, 0], [0, 0]]"]
    by (simp add: init_auto_def init_manual_def s) blast
qed

end
